theory Spec2Isabelle
  imports Main "HOL-Library.Signed_Division"
begin

section \<open>Go values\<close>

text \<open>
  A Go \<^verbatim>\<open>string\<close> is a sequence of bytes: it is modelled as \<^typ>\<open>string\<close>, one
  \<^typ>\<open>char\<close> per byte. A \<^verbatim>\<open>rune\<close> and an \<^verbatim>\<open>int\<close> are modelled as \<^typ>\<open>int\<close>:
  every counter of the program is bounded by the length of the input or by the
  \<^verbatim>\<open>tabSize\<close> argument, so no 64-bit wrap-around is reachable before memory is exhausted.
\<close>

type_synonym rune = int

abbreviation LF :: char where "LF \<equiv> CHR 0x0A"

abbreviation RuneError :: rune where "RuneError \<equiv> 0xFFFD"

text \<open>
  The outcome of a call: it returns a value, it panics, or the model ran out of fuel.
  The recursion of \<^verbatim>\<open>flushWordBuffer\<close> and the scan loop of \<^verbatim>\<open>stringWrap\<close> carry a fuel
  argument; a call that is \<open>OutOfFuel\<close> for every amount of fuel does not return.
\<close>

datatype 'a result = Returns 'a | Panics | OutOfFuel

subsection \<open>Package \<^verbatim>\<open>unicode/utf8\<close>\<close>

definition byte_in :: "int \<Rightarrow> int \<Rightarrow> char \<Rightarrow> bool" where
  "byte_in lo hi c = (lo \<le> of_char c \<and> (of_char c :: int) \<le> hi)"

text \<open>\<^verbatim>\<open>utf8.DecodeRuneInString\<close>: the first rune and its width in bytes;
  \<open>(RuneError, 0)\<close> on the empty string, \<open>(RuneError, 1)\<close> on an invalid encoding.\<close>

fun DecodeRuneInString :: "string \<Rightarrow> rune \<times> int" where
  "DecodeRuneInString [] = (RuneError, 0)"
| "DecodeRuneInString (c0 # cs) =
     (let b0 = (of_char c0 :: int) in
      if b0 < 0x80 then (b0, 1)
      else if 0xC2 \<le> b0 \<and> b0 \<le> 0xDF then
        (case cs of
           c1 # _ \<Rightarrow>
             if byte_in 0x80 0xBF c1
             then ((b0 mod 32) * 64 + of_char c1 mod 64, 2)
             else (RuneError, 1)
         | _ \<Rightarrow> (RuneError, 1))
      else if 0xE0 \<le> b0 \<and> b0 \<le> 0xEF then
        (case cs of
           c1 # c2 # _ \<Rightarrow>
             if byte_in (if b0 = 0xE0 then 0xA0 else 0x80) (if b0 = 0xED then 0x9F else 0xBF) c1
                \<and> byte_in 0x80 0xBF c2
             then ((b0 mod 16) * 4096 + (of_char c1 mod 64) * 64 + of_char c2 mod 64, 3)
             else (RuneError, 1)
         | _ \<Rightarrow> (RuneError, 1))
      else if 0xF0 \<le> b0 \<and> b0 \<le> 0xF4 then
        (case cs of
           c1 # c2 # c3 # _ \<Rightarrow>
             if byte_in (if b0 = 0xF0 then 0x90 else 0x80) (if b0 = 0xF4 then 0x8F else 0xBF) c1
                \<and> byte_in 0x80 0xBF c2 \<and> byte_in 0x80 0xBF c3
             then ((b0 mod 8) * 262144 + (of_char c1 mod 64) * 4096
                     + (of_char c2 mod 64) * 64 + of_char c3 mod 64, 4)
             else (RuneError, 1)
         | _ \<Rightarrow> (RuneError, 1))
      else (RuneError, 1))"

lemma DecodeRuneInString_size:
  "s \<noteq> [] \<Longrightarrow> 1 \<le> snd (DecodeRuneInString s) \<and> snd (DecodeRuneInString s) \<le> 4"
  by (cases s) (auto simp: Let_def split: list.splits)

text \<open>\<^verbatim>\<open>utf8.RuneCountInString\<close>: invalid bytes count as one rune each.\<close>

function RuneCountInString :: "string \<Rightarrow> int" where
  "RuneCountInString s =
     (if s = [] then 0
      else 1 + RuneCountInString (drop (nat (snd (DecodeRuneInString s))) s))"
  by pat_completeness auto
termination
proof (relation "measure length")
  show "wf (measure length)" by simp
next
  fix s :: string
  assume "s \<noteq> []"
  then show "(drop (nat (snd (DecodeRuneInString s))) s, s) \<in> measure length"
    using DecodeRuneInString_size [of s] by (cases s) auto
qed

declare RuneCountInString.simps [simp del]

text \<open>\<^verbatim>\<open>utf8.AppendRune\<close>, behind \<^verbatim>\<open>bytes.Buffer.WriteRune\<close>: the UTF-8 encoding of a rune,
  that of \<open>RuneError\<close> for a rune out of range or a surrogate half.\<close>

definition EncodeRune :: "rune \<Rightarrow> string" where
  "EncodeRune r =
     (if 0 \<le> r \<and> r \<le> 0x7F then [char_of r]
      else if 0 \<le> r \<and> r \<le> 0x7FF then [char_of (0xC0 + r div 64), char_of (0x80 + r mod 64)]
      else if r < 0 \<or> 0x10FFFF < r \<or> (0xD800 \<le> r \<and> r \<le> 0xDFFF)
        then [CHR 0xEF, CHR 0xBF, CHR 0xBD]
      else if r \<le> 0xFFFF
        then [char_of (0xE0 + r div 4096), char_of (0x80 + (r div 64) mod 64),
              char_of (0x80 + r mod 64)]
      else [char_of (0xF0 + r div 262144), char_of (0x80 + (r div 4096) mod 64),
            char_of (0x80 + (r div 64) mod 64), char_of (0x80 + r mod 64)])"

text \<open>\<^verbatim>\<open>utf8.RuneStart\<close> and \<^verbatim>\<open>utf8.DecodeLastRuneInString\<close>. The latter scans backwards from
  the last byte over at most three bytes that do not start a rune; \<open>lastRuneStart\<close> is that
  scan, written out, and the index it stops at.\<close>

definition RuneStart :: "char \<Rightarrow> bool" where
  "RuneStart c = (\<not> byte_in 0x80 0xBF c)"

definition lastRuneStart :: "string \<Rightarrow> int" where
  "lastRuneStart s =
     (let e = int (length s);
          lim = max 0 (e - 4);
          stop = (\<lambda>i. i < lim \<or> RuneStart (s ! nat i));
          start = (if stop (e - 2) then e - 2
                   else if stop (e - 3) then e - 3
                   else if stop (e - 4) then e - 4
                   else e - 5)
      in if start < 0 then 0 else start)"

definition DecodeLastRuneInString :: "string \<Rightarrow> rune \<times> int" where
  "DecodeLastRuneInString s =
     (if s = [] then (RuneError, 0)
      else if (of_char (last s) :: int) < 0x80 then (of_char (last s), 1)
      else
        (let start = lastRuneStart s;
             (r, size) = DecodeRuneInString (drop (nat start) s)
         in if start + size \<noteq> int (length s) then (RuneError, 1) else (r, size)))"

lemma lastRuneStart_less: "s \<noteq> [] \<Longrightarrow> lastRuneStart s < int (length s)"
  by (cases s) (simp_all add: lastRuneStart_def Let_def)

lemma DecodeLastRuneInString_size: "s \<noteq> [] \<Longrightarrow> 1 \<le> snd (DecodeLastRuneInString s)"
  using lastRuneStart_less [of s]
  by (auto simp: DecodeLastRuneInString_def Let_def split: prod.splits)

subsection \<open>Package \<^verbatim>\<open>unicode\<close> and \<^verbatim>\<open>strings\<close>\<close>

text \<open>\<^verbatim>\<open>unicode.IsSpace\<close>: the Latin-1 spaces and the code points with the Unicode
  property White_Space.\<close>

definition IsSpace :: "rune \<Rightarrow> bool" where
  "IsSpace r =
     ((0x09 \<le> r \<and> r \<le> 0x0D) \<or> r = 0x20 \<or> r = 0x85 \<or> r = 0xA0 \<or> r = 0x1680
      \<or> (0x2000 \<le> r \<and> r \<le> 0x200A) \<or> r = 0x2028 \<or> r = 0x2029 \<or> r = 0x202F
      \<or> r = 0x205F \<or> r = 0x3000)"

text \<open>\<^verbatim>\<open>strings.TrimRightFunc(s, unicode.IsSpace)\<close>: drops the trailing runes that are
  spaces.\<close>

function TrimRightSpace :: "string \<Rightarrow> string" where
  "TrimRightSpace s =
     (if s = [] then []
      else (let (r, size) = DecodeLastRuneInString s in
            if IsSpace r then TrimRightSpace (take (length s - nat size) s) else s))"
  by pat_completeness auto
termination
proof (relation "measure length")
  show "wf (measure length)" by simp
next
  fix s :: string and x r size
  assume "s \<noteq> []" and "x = DecodeLastRuneInString s" and "(r, size) = x" and "IsSpace r"
  then have "s \<noteq> []" and "1 \<le> size"
    using DecodeLastRuneInString_size [of s] by (auto dest: sym)
  then show "(take (length s - nat size) s, s) \<in> measure length"
    by (cases s) auto
qed

declare TrimRightSpace.simps [simp del]

text \<open>\<^verbatim>\<open>strings.Repeat(" ", count)\<close> panics on a negative count.\<close>

definition RepeatSpace :: "int \<Rightarrow> string result" where
  "RepeatSpace count = (if count < 0 then Panics else Returns (replicate (nat count) CHR '' ''))"

text \<open>A slice expression \<^verbatim>\<open>s[lo:hi]\<close> panics unless \<open>0 \<le> lo \<le> hi \<le> len(s)\<close>.\<close>

definition slice :: "string \<Rightarrow> int \<Rightarrow> int \<Rightarrow> string result" where
  "slice s lo hi =
     (if 0 \<le> lo \<and> lo \<le> hi \<and> hi \<le> int (length s)
      then Returns (take (nat (hi - lo)) (drop (nat lo) s)) else Panics)"

subsection \<open>The external collaborators\<close>

text \<open>
  The packages \<^verbatim>\<open>ansiwalker\<close>, \<^verbatim>\<open>go-runewidth\<close> and \<^verbatim>\<open>uniseg\<close>, and the tables behind
  \<^verbatim>\<open>unicode.IsLetter\<close> and \<^verbatim>\<open>unicode.IsNumber\<close>, are parameters of the model:
  \<^item> \<open>ANSIWalk s i\<close> is \<^verbatim>\<open>ansiwalker.ANSIWalk(s, i)\<close>: a rune, its size, the index after it,
    and a flag;
  \<^item> \<open>StringWidth\<close> and \<open>RuneWidth\<close> are the display widths of \<^verbatim>\<open>go-runewidth\<close>;
  \<^item> \<open>StepString s state\<close> is the cluster and the new state of \<^verbatim>\<open>uniseg.StepString\<close>;
  \<^item> \<open>Graphemes s\<close> lists the clusters that \<^verbatim>\<open>uniseg.NewGraphemes(s)\<close> yields, one for
    each successful \<^verbatim>\<open>Next()\<close>.
\<close>

record ext =
  ANSIWalk :: "string \<Rightarrow> int \<Rightarrow> rune \<times> int \<times> int \<times> bool"
  StringWidth :: "string \<Rightarrow> int"
  RuneWidth :: "rune \<Rightarrow> int"
  StepString :: "string \<Rightarrow> int \<Rightarrow> string \<times> int"
  Graphemes :: "string \<Rightarrow> string list"
  IsLetter :: "rune \<Rightarrow> bool"
  IsNumber :: "rune \<Rightarrow> bool"

section \<open>The data model of \<^verbatim>\<open>stringwrap.go\<close>\<close>

definition isWordyGrapheme :: "ext \<Rightarrow> string \<Rightarrow> bool" where
  "isWordyGrapheme E grapheme =
     (let r = fst (DecodeRuneInString grapheme) in IsLetter E r \<or> IsNumber E r)"

definition btoi :: "bool \<Rightarrow> int" where
  "btoi b = (if b then 1 else 0)"

record LineOffset =
  Start :: int
  End :: int

record WrappedString =
  CurLineNum :: int
  OrigLineNum :: int
  OrigByteOffset :: LineOffset
  OrigRuneOffset :: LineOffset
  SegmentInOrig :: int
  LastSegmentInOrig :: bool
  NotWithinLimit :: bool
  IsHardBreak :: bool
  Width :: int
  EndsWithSplitWord :: bool

record WrappedStringSeq =
  WrappedLines :: "WrappedString list"
  WordSplitAllowed :: bool
  TabSize :: int
  Limit :: int

definition lastWrappedLine :: "WrappedStringSeq \<Rightarrow> WrappedString option" where
  "lastWrappedLine s = (if WrappedLines s = [] then None else Some (last (WrappedLines s)))"

definition appendWrappedSeq :: "WrappedStringSeq \<Rightarrow> WrappedString \<Rightarrow> WrappedStringSeq" where
  "appendWrappedSeq s wrapped = s\<lparr>WrappedLines := WrappedLines s @ [wrapped]\<rparr>"

subsection \<open>The grapheme iterator of a word\<close>

text \<open>The field \<open>graphemes\<close> holds the clusters that the \<^verbatim>\<open>uniseg\<close> iterator has not yet
  yielded.\<close>

record graphemeWordIter =
  subWordBuffer :: string
  subWordWidth :: int
  preLimitCluster :: string
  nextClusterWidth :: int
  cluster :: string
  graphemes :: "string list"

definition newGraphemeWordIter :: "ext \<Rightarrow> string \<Rightarrow> graphemeWordIter" where
  "newGraphemeWordIter E word =
     \<lparr>subWordBuffer = [], subWordWidth = 0, preLimitCluster = [], nextClusterWidth = 0,
      cluster = [], graphemes = Graphemes E word\<rparr>"

definition needsHyphen :: "ext \<Rightarrow> graphemeWordIter \<Rightarrow> bool" where
  "needsHyphen E g = (isWordyGrapheme E (cluster g) \<and> isWordyGrapheme E (preLimitCluster g))"

definition totalWidth :: "graphemeWordIter \<Rightarrow> int \<Rightarrow> int" where
  "totalWidth g lineWidth = subWordWidth g + lineWidth + nextClusterWidth g"

text \<open>The loop of \<^verbatim>\<open>iter\<close>: \<^verbatim>\<open>Next()\<close> advances the iterator before the width test, also
  when the test then ends the loop.\<close>

function iter :: "ext \<Rightarrow> graphemeWordIter \<Rightarrow> int \<Rightarrow> int \<Rightarrow> graphemeWordIter" where
  "iter E g lineWidth limit =
     (case graphemes g of
        [] \<Rightarrow> g
      | c # rest \<Rightarrow>
          if totalWidth g lineWidth < limit
          then iter E
                 (g\<lparr>preLimitCluster := cluster g,
                    cluster := c,
                    subWordWidth := subWordWidth g + nextClusterWidth g,
                    nextClusterWidth := StringWidth E c,
                    subWordBuffer := subWordBuffer g @ cluster g,
                    graphemes := rest\<rparr>)
                 lineWidth limit
          else g\<lparr>graphemes := rest\<rparr>)"
  by pat_completeness auto
termination
  by (relation "measure (\<lambda>(E, g, lineWidth, limit). length (graphemes g))") auto

declare iter.simps [simp del]

subsection \<open>Positions and configuration\<close>

record positions =
  curLineWidth :: int
  curLineNum :: int
  origLineNum :: int
  curWordWidth :: int
  origLineSegment :: int
  origStartLineByte :: int
  origStartLineRune :: int
  timmedWhiteSpace :: int

definition endCalc :: "positions \<Rightarrow> int \<Rightarrow> int \<Rightarrow> bool \<Rightarrow> bool \<Rightarrow> int" where
  "endCalc p count lineCount hard split =
     (let origEndLine = count + lineCount - 1 + btoi hard - btoi split
      in origEndLine + timmedWhiteSpace p)"

definition endByte :: "positions \<Rightarrow> string \<Rightarrow> bool \<Rightarrow> bool \<Rightarrow> int \<times> LineOffset" where
  "endByte p line hard split =
     (let endLine = endCalc p (origStartLineByte p) (int (length line)) hard split
      in (endLine, \<lparr>Start = origStartLineByte p, End = endLine\<rparr>))"

definition endRune :: "positions \<Rightarrow> string \<Rightarrow> bool \<Rightarrow> bool \<Rightarrow> int \<times> LineOffset" where
  "endRune p line hard split =
     (let endLine = endCalc p (origStartLineRune p) (RuneCountInString line) hard split
      in (endLine, \<lparr>Start = origStartLineRune p, End = endLine\<rparr>))"

definition curWritePosition :: "positions \<Rightarrow> int" where
  "curWritePosition p = curWordWidth p + curLineWidth p"

definition incrementCurLine :: "positions \<Rightarrow> positions" where
  "incrementCurLine p = p\<lparr>curLineNum := curLineNum p + 1\<rparr>"

definition incrementOrigLine :: "positions \<Rightarrow> positions" where
  "incrementOrigLine p = p\<lparr>origLineNum := origLineNum p + 1\<rparr>"

record wordWrapConfig =
  limit :: int
  tabSize :: int
  trimWhitespace :: bool
  splitWord :: bool

subsection \<open>The wrap state machine\<close>

text \<open>The two pointers of the Go struct, \<^verbatim>\<open>pos\<close> and \<^verbatim>\<open>wrappedStringSeq\<close>, have one owner
  each: the values they point to are fields of the state.\<close>

record wrapStateMachine =
  lineBuffer :: string
  wordBuffer :: string
  buffer :: string
  pos :: positions
  wrappedStringSeq :: WrappedStringSeq
  config :: wordWrapConfig
  wordHasNbsp :: bool

definition writeANSIToLine :: "wrapStateMachine \<Rightarrow> string \<Rightarrow> wrapStateMachine" where
  "writeANSIToLine w str = w\<lparr>lineBuffer := lineBuffer w @ str\<rparr>"

definition writeStrToWord :: "wrapStateMachine \<Rightarrow> string \<Rightarrow> wrapStateMachine" where
  "writeStrToWord w str = w\<lparr>wordBuffer := wordBuffer w @ str\<rparr>"

definition writeRuneToWord :: "wrapStateMachine \<Rightarrow> rune \<Rightarrow> wrapStateMachine" where
  "writeRuneToWord w r = w\<lparr>wordBuffer := wordBuffer w @ EncodeRune r\<rparr>"

definition writeLine :: "ext \<Rightarrow> wrapStateMachine \<Rightarrow> bool \<Rightarrow> bool \<Rightarrow> wrapStateMachine" where
  "writeLine E w hardBreak endsSplit =
     (let newLine0 = lineBuffer w;
          (newLine1, p1) =
             (if trimWhitespace (config w)
              then (let trimmed = TrimRightSpace newLine0;
                        trimWidth = StringWidth E trimmed
                    in (trimmed,
                        (pos w)\<lparr>timmedWhiteSpace :=
                                   timmedWhiteSpace (pos w) + (curLineWidth (pos w) - trimWidth),
                                 curLineWidth := trimWidth\<rparr>))
              else (newLine0, pos w));
          newLine = newLine1 @ [LF];
          p2 = p1\<lparr>origLineSegment := origLineSegment p1 + 1\<rparr>;
          (origEndLineByte, origByteOffset) = endByte p2 newLine hardBreak endsSplit;
          (origEndLineRune, origRuneOffset) = endRune p2 newLine hardBreak endsSplit;
          wrappedString =
            \<lparr>CurLineNum = curLineNum p2,
             OrigLineNum = origLineNum p2,
             OrigByteOffset = origByteOffset,
             OrigRuneOffset = origRuneOffset,
             SegmentInOrig = origLineSegment p2,
             LastSegmentInOrig = hardBreak,
             NotWithinLimit = (curLineWidth p2 > limit (config w)),
             IsHardBreak = hardBreak,
             Width = curLineWidth p2,
             EndsWithSplitWord = endsSplit\<rparr>;
          p3 = incrementCurLine p2;
          p4 = p3\<lparr>origStartLineByte := origEndLineByte, origStartLineRune := origEndLineRune\<rparr>;
          p5 = p4\<lparr>curLineWidth := 0, timmedWhiteSpace := 0\<rparr>
      in w\<lparr>buffer := buffer w @ newLine,
           lineBuffer := [],
           wrappedStringSeq := appendWrappedSeq (wrappedStringSeq w) wrappedString,
           pos := p5\<rparr>)"

definition writeHardLine :: "ext \<Rightarrow> wrapStateMachine \<Rightarrow> wrapStateMachine" where
  "writeHardLine E w = writeLine E w True False"

definition writeSoftLine :: "ext \<Rightarrow> wrapStateMachine \<Rightarrow> bool \<Rightarrow> wrapStateMachine" where
  "writeSoftLine E w endsSplit = writeLine E w False endsSplit"

definition flushLineBuffer :: "ext \<Rightarrow> wrapStateMachine \<Rightarrow> int \<Rightarrow> wrapStateMachine" where
  "flushLineBuffer E w len =
     (if curLineWidth (pos w) + len > limit (config w) then writeSoftLine E w False else w)"

definition writeSpaceToLine :: "ext \<Rightarrow> wrapStateMachine \<Rightarrow> rune \<Rightarrow> wrapStateMachine" where
  "writeSpaceToLine E w r =
     (let w1 = flushLineBuffer E w 1 in
      if \<not> trimWhitespace (config w1) \<or> curLineWidth (pos w1) > 0
      then w1\<lparr>lineBuffer := lineBuffer w1 @ EncodeRune r,
              pos := (pos w1)\<lparr>curLineWidth := curLineWidth (pos w1) + 1\<rparr>\<rparr>
      else w1\<lparr>pos := (pos w1)\<lparr>timmedWhiteSpace := timmedWhiteSpace (pos w1) + 1\<rparr>\<rparr>)"

text \<open>\<^verbatim>\<open>writeTabToLine\<close> returns the state and the adjusted tab size. Go's \<^verbatim>\<open>%\<close> truncates
  towards zero: it is \<open>smod\<close>.\<close>

definition writeTabToLine :: "ext \<Rightarrow> wrapStateMachine \<Rightarrow> (wrapStateMachine \<times> int) result" where
  "writeTabToLine E w =
     (let adjTabSize0 =
            (if tabSize (config w) > 0
             then tabSize (config w) - (curLineWidth (pos w) smod tabSize (config w))
             else 0);
          w1 = flushLineBuffer E w adjTabSize0;
          (adjTabSize, w2) =
            (if lineBuffer w1 = []
             then (if trimWhitespace (config w1)
                   then (0, w1\<lparr>pos := (pos w1)\<lparr>timmedWhiteSpace := timmedWhiteSpace (pos w1) + 1\<rparr>\<rparr>)
                   else (tabSize (config w1), w1))
             else (adjTabSize0, w1))
      in case RepeatSpace adjTabSize of
           Returns tabSpaces \<Rightarrow> Returns (w2\<lparr>lineBuffer := lineBuffer w2 @ tabSpaces\<rparr>, adjTabSize)
         | Panics \<Rightarrow> Panics
         | OutOfFuel \<Rightarrow> OutOfFuel)"

definition writeWord :: "wrapStateMachine \<Rightarrow> wrapStateMachine" where
  "writeWord w =
     w\<lparr>lineBuffer := lineBuffer w @ wordBuffer w,
       wordBuffer := [],
       pos := (pos w)\<lparr>curLineWidth := curLineWidth (pos w) + curWordWidth (pos w),
                      curWordWidth := 0\<rparr>\<rparr>"

text \<open>The split branch of \<^verbatim>\<open>flushWordBuffer\<close> up to its recursive call: the sub-word found by
  \<^verbatim>\<open>iter\<close> goes to the line with a hyphen if one is needed, the line is written as a soft
  line, and the sub-word leaves the word buffer.\<close>

definition writeSubWord :: "ext \<Rightarrow> wrapStateMachine \<Rightarrow> graphemeWordIter \<Rightarrow> wrapStateMachine" where
  "writeSubWord E w gIter =
     (let w1 = w\<lparr>lineBuffer := lineBuffer w @ subWordBuffer gIter\<rparr>;
          w2 = (if needsHyphen E gIter
                then w1\<lparr>lineBuffer := lineBuffer w1 @ EncodeRune 0x2D,
                        pos := (pos w1)\<lparr>curLineWidth := curLineWidth (pos w1) + 1\<rparr>\<rparr>
                else w1)
      in w2\<lparr>pos := (pos w2)\<lparr>curLineWidth := curLineWidth (pos w2) + subWordWidth gIter\<rparr>\<rparr>)"

definition splitWordStep :: "ext \<Rightarrow> wrapStateMachine \<Rightarrow> wrapStateMachine" where
  "splitWordStep E w =
     (let gIter = iter E (newGraphemeWordIter E (wordBuffer w))
                    (curLineWidth (pos w)) (limit (config w));
          w3 = writeSubWord E w gIter;
          w4 = writeSoftLine E w3 (needsHyphen E gIter);
          w5 = w4\<lparr>wordBuffer := drop (length (subWordBuffer gIter)) (wordBuffer w4)\<rparr>
      in w5\<lparr>pos := (pos w5)\<lparr>curWordWidth := curWordWidth (pos w5) - subWordWidth gIter\<rparr>\<rparr>)"

fun flushWordBuffer :: "ext \<Rightarrow> nat \<Rightarrow> wrapStateMachine \<Rightarrow> wrapStateMachine result" where
  "flushWordBuffer E 0 w = OutOfFuel"
| "flushWordBuffer E (Suc fuel) w =
     (let exceedsLimit = (curWritePosition (pos w) > limit (config w)) in
      if exceedsLimit \<and> curWordWidth (pos w) = 0 then Returns (writeSoftLine E w False)
      else if exceedsLimit then
        (if splitWord (config w) \<and> \<not> wordHasNbsp w
         then (case flushWordBuffer E fuel (splitWordStep E w) of
                 Returns w' \<Rightarrow> Returns (w'\<lparr>wordHasNbsp := False\<rparr>)
               | Panics \<Rightarrow> Panics
               | OutOfFuel \<Rightarrow> OutOfFuel)
         else (let w1 = (if curLineWidth (pos w) > 0 then writeSoftLine E w False else w)
               in Returns ((writeWord w1)\<lparr>wordHasNbsp := False\<rparr>)))
      else Returns ((writeWord w)\<lparr>wordHasNbsp := False\<rparr>))"

subsection \<open>The scan loop and the entry points\<close>

definition andThen :: "'a result \<Rightarrow> ('a \<Rightarrow> 'b result) \<Rightarrow> 'b result" where
  "andThen m f = (case m of Returns x \<Rightarrow> f x | Panics \<Rightarrow> Panics | OutOfFuel \<Rightarrow> OutOfFuel)"

text \<open>The inner switch of the whitespace case, after the pending word is flushed.\<close>

definition whitespaceCase :: "ext \<Rightarrow> wrapStateMachine \<Rightarrow> rune \<Rightarrow> wrapStateMachine result" where
  "whitespaceCase E w r =
     (if r = 0x20 then Returns (writeSpaceToLine E w r)
      else if r = 0x0A \<or> r = 0x0D \<or> r = 0x85 \<or> r = 0x2028 \<or> r = 0x2029 then
        (let w1 = writeHardLine E w;
             w2 = w1\<lparr>pos := incrementOrigLine (pos w1)\<rparr>
         in Returns (w2\<lparr>pos := (pos w2)\<lparr>origLineSegment := 0\<rparr>\<rparr>))
      else if r = 0x09 then
        andThen (writeTabToLine E w)
          (\<lambda>(w1, adjTabSize).
             Returns (w1\<lparr>pos := (pos w1)\<lparr>curLineWidth := curLineWidth (pos w1) + adjTabSize\<rparr>\<rparr>))
      else if r = 0x0B \<or> r = 0x0C then Returns w
      else (let w1 = writeSpaceToLine E w r
            in Returns (w1\<lparr>pos := (pos w1)\<lparr>curLineWidth :=
                                               curLineWidth (pos w1) + (RuneWidth E r - 1)\<rparr>\<rparr>)))"

text \<open>One iteration of the loop \<^verbatim>\<open>for idx < len(str)\<close>, on the state machine, the grapheme
  state and the index.\<close>

definition loopBody ::
  "ext \<Rightarrow> nat \<Rightarrow> string \<Rightarrow> wrapStateMachine \<times> int \<times> int \<Rightarrow> (wrapStateMachine \<times> int \<times> int) result"
where
  "loopBody E fuel str = (\<lambda>(w, state, idx).
     (let (r, rSize, next, ok) = ANSIWalk E str idx;
          rIdx = next - rSize
      in andThen
           (if ok \<and> rIdx > idx
            then andThen (flushWordBuffer E fuel w)
                   (\<lambda>w1. andThen (slice str idx rIdx)
                      (\<lambda>esc. Returns (writeANSIToLine w1 esc, - 1)))
            else Returns (w, state))
           (\<lambda>(w2, state2).
              if r = 0xA0 then
                (let w3 = writeRuneToWord (w2\<lparr>wordHasNbsp := True\<rparr>) r
                 in Returns (w3\<lparr>pos := (pos w3)\<lparr>curWordWidth := curWordWidth (pos w3) + 1\<rparr>\<rparr>,
                             state2, rIdx + rSize))
              else if IsSpace r then
                andThen (flushWordBuffer E fuel w2)
                  (\<lambda>w3. andThen (whitespaceCase E w3 r)
                     (\<lambda>w4. Returns (w4, - 1, rIdx + rSize)))
              else
                andThen (slice str rIdx (int (length str)))
                  (\<lambda>rest.
                     (let (cluster, st) = StepString E rest state2 in
                      if cluster \<noteq> [] then
                        (let clusterWidth = StringWidth E cluster;
                             w3 = w2\<lparr>pos := (pos w2)\<lparr>curWordWidth :=
                                                         curWordWidth (pos w2) + clusterWidth\<rparr>\<rparr>
                         in Returns (writeStrToWord w3 cluster, st, rIdx + int (length cluster)))
                      else Returns (w2, st, rIdx + rSize))))))"

fun wrapLoop ::
  "ext \<Rightarrow> nat \<Rightarrow> string \<Rightarrow> wrapStateMachine \<times> int \<times> int \<Rightarrow> (wrapStateMachine \<times> int \<times> int) result"
where
  "wrapLoop E 0 str s = OutOfFuel"
| "wrapLoop E (Suc fuel) str s =
     (if snd (snd s) < int (length str)
      then andThen (loopBody E fuel str s) (wrapLoop E fuel str)
      else Returns s)"

text \<open>The three results of \<^verbatim>\<open>stringWrap\<close>: the text, the sequence (\<open>None\<close> is the nil
  pointer) and the error (\<open>None\<close> is the nil error).\<close>

type_synonym wrapped = "string \<times> WrappedStringSeq option \<times> string option"

text \<open>The end of \<^verbatim>\<open>stringWrap\<close>, after the last flush of the word buffer: the pending line is
  written, and the last line terminator is removed unless the last line is a hard break.
  \<^verbatim>\<open>Truncate\<close> panics on a negative length.\<close>

definition finishWrap :: "ext \<Rightarrow> wrapStateMachine \<Rightarrow> wrapped result" where
  "finishWrap E w =
     (let w1 = (if lineBuffer w \<noteq> [] then writeSoftLine E w False else w);
          seq = wrappedStringSeq w1
      in case lastWrappedLine seq of
           None \<Rightarrow> Returns (buffer w1, Some seq, None)
         | Some lastLine \<Rightarrow>
             if \<not> IsHardBreak lastLine then
               (if buffer w1 = [] then Panics
                else Returns
                       (butlast (buffer w1),
                        Some (seq\<lparr>WrappedLines :=
                                    butlast (WrappedLines seq)
                                    @ [lastLine\<lparr>LastSegmentInOrig := True\<rparr>]\<rparr>),
                        None))
             else Returns (buffer w1, Some seq, None))"

text \<open>The state machine that \<^verbatim>\<open>stringWrap\<close> starts from.\<close>

definition initialState :: "int \<Rightarrow> int \<Rightarrow> bool \<Rightarrow> bool \<Rightarrow> wrapStateMachine" where
  "initialState limit' tabSize' trimWhitespace' splitWord' =
     \<lparr>lineBuffer = [], wordBuffer = [], buffer = [],
      pos = \<lparr>curLineWidth = 0, curLineNum = 1, origLineNum = 1, curWordWidth = 0,
             origLineSegment = 0, origStartLineByte = 0, origStartLineRune = 0,
             timmedWhiteSpace = 0\<rparr>,
      wrappedStringSeq =
        \<lparr>WrappedLines = [], WordSplitAllowed = splitWord', TabSize = tabSize',
         Limit = limit'\<rparr>,
      config = \<lparr>limit = limit', tabSize = tabSize', trimWhitespace = trimWhitespace',
                splitWord = splitWord'\<rparr>,
      wordHasNbsp = False\<rparr>"

definition stringWrap ::
  "ext \<Rightarrow> nat \<Rightarrow> string \<Rightarrow> int \<Rightarrow> int \<Rightarrow> bool \<Rightarrow> bool \<Rightarrow> wrapped result"
where
  "stringWrap E fuel str limit' tabSize' trimWhitespace' splitWord' =
     (if limit' < 2 then Returns ([], None, Some ''limit must be greater than one'')
      else
        andThen
          (wrapLoop E fuel str (initialState limit' tabSize' trimWhitespace' splitWord', - 1, 0))
          (\<lambda>(w, state, idx). andThen (flushWordBuffer E fuel w) (finishWrap E)))"

definition StringWrap :: "ext \<Rightarrow> nat \<Rightarrow> string \<Rightarrow> int \<Rightarrow> int \<Rightarrow> bool \<Rightarrow> wrapped result" where
  "StringWrap E fuel str limit' tabSize' trimWhitespace' =
     stringWrap E fuel str limit' tabSize' trimWhitespace' False"

definition StringWrapSplit :: "ext \<Rightarrow> nat \<Rightarrow> string \<Rightarrow> int \<Rightarrow> int \<Rightarrow> bool \<Rightarrow> wrapped result" where
  "StringWrapSplit E fuel str limit' tabSize' trimWhitespace' =
     stringWrap E fuel str limit' tabSize' trimWhitespace' True"

section \<open>A reference instance of the collaborators\<close>

text \<open>
  The theorems below hold for every instance of the collaborators. Where the program is
  evaluated on a concrete input, the collaborators are the following ones, which stand for
  the libraries on simple text only.

  Every code point is a grapheme cluster of its own: a control character has width 0, a
  code point of an East Asian wide block has width 2, any other one has width 1. Only
  letters and digits of ASCII and the CJK unified ideographs are letters and numbers.

  \<open>refANSIWalk\<close> skips one CSI escape sequence (\<^verbatim>\<open>ESC [ ... final byte\<close>) if one starts at the
  index, and yields the rune after it, its size and the index after that rune. The flag is
  true if something follows that rune, so it is false on the last rune of the string. If
  nothing is left at the index, or after the sequence skipped, the index yielded is -1 and
  the flag is false, with a rune and a size of 0. A second sequence right after the first
  one is not skipped in the same call. The sequences of other kinds that \<^verbatim>\<open>ansiwalker\<close>
  skips, such as OSC, are not skipped at all, and a negative index is read as 0. The
  inputs evaluated below have escape sequences of the first kind only, each followed by a
  rune that is not the last one of the input.
\<close>

function runesOf :: "string \<Rightarrow> string list" where
  "runesOf s =
     (if s = [] then []
      else take (nat (snd (DecodeRuneInString s))) s
           # runesOf (drop (nat (snd (DecodeRuneInString s))) s))"
  by pat_completeness auto
termination
proof (relation "measure length")
  show "wf (measure length)" by simp
next
  fix s :: string
  assume "s \<noteq> []"
  then show "(drop (nat (snd (DecodeRuneInString s))) s, s) \<in> measure length"
    using DecodeRuneInString_size [of s] by (cases s) auto
qed

declare runesOf.simps [simp del]

definition refRuneWidth :: "rune \<Rightarrow> int" where
  "refRuneWidth r =
     (if r < 0x20 \<or> (0x7F \<le> r \<and> r < 0xA0) then 0
      else if (0x1100 \<le> r \<and> r \<le> 0x115F) \<or> (0x2E80 \<le> r \<and> r \<le> 0x303E)
              \<or> (0x3041 \<le> r \<and> r \<le> 0x33FF) \<or> (0x3400 \<le> r \<and> r \<le> 0x4DBF)
              \<or> (0x4E00 \<le> r \<and> r \<le> 0x9FFF) \<or> (0xA000 \<le> r \<and> r \<le> 0xA4CF)
              \<or> (0xAC00 \<le> r \<and> r \<le> 0xD7A3) \<or> (0xF900 \<le> r \<and> r \<le> 0xFAFF)
              \<or> (0xFE30 \<le> r \<and> r \<le> 0xFE4F) \<or> (0xFF00 \<le> r \<and> r \<le> 0xFF60)
              \<or> (0xFFE0 \<le> r \<and> r \<le> 0xFFE6) \<or> (0x1F300 \<le> r \<and> r \<le> 0x1F64F)
              \<or> (0x1F900 \<le> r \<and> r \<le> 0x1F9FF) then 2
      else 1)"

definition refStringWidth :: "string \<Rightarrow> int" where
  "refStringWidth s = sum_list (map (\<lambda>c. refRuneWidth (fst (DecodeRuneInString c))) (runesOf s))"

definition refStepString :: "string \<Rightarrow> int \<Rightarrow> string \<times> int" where
  "refStepString s state = (take (nat (snd (DecodeRuneInString s))) s, 0)"

definition csiEnd :: "string \<Rightarrow> nat \<Rightarrow> nat" where
  "csiEnd s j =
     min (length s) (j + length (takeWhile (\<lambda>c. \<not> byte_in 0x40 0x7E c) (drop j s)) + 1)"

definition skipEscape :: "string \<Rightarrow> nat \<Rightarrow> nat" where
  "skipEscape s i =
     (if Suc i < length s \<and> s ! i = CHR 0x1B \<and> s ! Suc i = CHR ''[''
      then csiEnd s (i + 2) else i)"

definition refANSIWalk :: "string \<Rightarrow> int \<Rightarrow> rune \<times> int \<times> int \<times> bool" where
  "refANSIWalk s i =
     (let j = skipEscape s (nat i) in
      if length s \<le> j then (0, 0, - 1, False)
      else (let (r, size) = DecodeRuneInString (drop j s)
            in (r, size, int j + size, int j + size < int (length s))))"

definition refIsLetter :: "rune \<Rightarrow> bool" where
  "refIsLetter r =
     ((0x41 \<le> r \<and> r \<le> 0x5A) \<or> (0x61 \<le> r \<and> r \<le> 0x7A) \<or> (0x4E00 \<le> r \<and> r \<le> 0x9FFF))"

definition refIsNumber :: "rune \<Rightarrow> bool" where
  "refIsNumber r = (0x30 \<le> r \<and> r \<le> 0x39)"

definition refExt :: ext where
  "refExt =
     \<lparr>ANSIWalk = refANSIWalk, StringWidth = refStringWidth, RuneWidth = refRuneWidth,
      StepString = refStepString, Graphemes = runesOf, IsLetter = refIsLetter,
      IsNumber = refIsNumber\<rparr>"

section \<open>Properties of the segment sequence\<close>

text \<open>\<open>tiled s xs e\<close>: the intervals \<open>xs\<close> start at \<open>s\<close>, each one starts where the one before
  ends, and the last one ends at \<open>e\<close>.\<close>

fun tiled :: "int \<Rightarrow> LineOffset list \<Rightarrow> int \<Rightarrow> bool" where
  "tiled s [] e = (s = e)"
| "tiled s (x # xs) e = (Start x = s \<and> tiled (End x) xs e)"

text \<open>
  What holds of the segment sequence all along a run with the configuration \<open>cfg\<close>: its byte
  intervals and its rune intervals are tiled from 0 up to the given ends, no segment ends
  with a split word unless splitting is allowed, and the sequence carries the
  configuration. In the state machine the ends are the offsets where the next line starts.
\<close>

definition seqOk :: "wordWrapConfig \<Rightarrow> WrappedStringSeq \<Rightarrow> int \<Rightarrow> int \<Rightarrow> bool" where
  "seqOk cfg s endByte' endRune' \<longleftrightarrow>
     tiled 0 (map OrigByteOffset (WrappedLines s)) endByte'
     \<and> tiled 0 (map OrigRuneOffset (WrappedLines s)) endRune'
     \<and> (\<not> splitWord cfg \<longrightarrow> (\<forall>l \<in> set (WrappedLines s). \<not> EndsWithSplitWord l))
     \<and> WordSplitAllowed s = splitWord cfg
     \<and> TabSize s = tabSize cfg
     \<and> Limit s = limit cfg"

definition seqInv :: "wordWrapConfig \<Rightarrow> wrapStateMachine \<Rightarrow> bool" where
  "seqInv cfg w \<longleftrightarrow>
     config w = cfg
     \<and> seqOk cfg (wrappedStringSeq w) (origStartLineByte (pos w)) (origStartLineRune (pos w))"


text \<open>Each text followed by one line feed.\<close>

definition terminated :: "string list \<Rightarrow> string" where
  "terminated texts = concat (map (\<lambda>t. t @ [LF]) texts)"



text \<open>The buffers hold no line feed but the terminators of the written lines, one for each
  segment.\<close>

definition linesInv :: "wrapStateMachine \<Rightarrow> bool" where
  "linesInv w \<longleftrightarrow>
     LF \<notin> set (lineBuffer w) \<and> LF \<notin> set (wordBuffer w)
     \<and> (\<exists>texts. length texts = length (WrappedLines (wrappedStringSeq w))
            \<and> (\<forall>t \<in> set texts. LF \<notin> set t)
            \<and> buffer w = terminated texts)"



subsection \<open>The invariant of the state machine\<close>

lemma tiled_snoc: "tiled s (xs @ [x]) e \<longleftrightarrow> tiled s xs (Start x) \<and> End x = e"
  by (induction xs arbitrary: s) auto

lemma tiled_nth:
  "tiled s xs e \<Longrightarrow> Suc i < length xs \<Longrightarrow> End (xs ! i) = Start (xs ! Suc i)"
proof (induction xs arbitrary: s i)
  case Nil
  then show ?case by simp
next
  case (Cons x xs)
  show ?case
  proof (cases i)
    case 0
    with Cons.prems show ?thesis by (cases xs) auto
  next
    case (Suc j)
    with Cons.prems Cons.IH [of "End x" j] show ?thesis by simp
  qed
qed

lemma tiled_hd: "tiled s xs e \<Longrightarrow> xs \<noteq> [] \<Longrightarrow> Start (hd xs) = s"
  by (cases xs) auto

lemma seqInv_writeLine:
  "seqInv cfg w \<Longrightarrow> (endsSplit \<longrightarrow> splitWord cfg) \<Longrightarrow> seqInv cfg (writeLine E w hardBreak endsSplit)"
  by (auto simp: seqInv_def seqOk_def writeLine_def Let_def endByte_def endRune_def
        appendWrappedSeq_def incrementCurLine_def tiled_snoc split: prod.splits)

lemma seqInv_lineBuffer [simp]: "seqInv cfg (w\<lparr>lineBuffer := x\<rparr>) = seqInv cfg w"
  by (simp add: seqInv_def)

lemma seqInv_wordBuffer [simp]: "seqInv cfg (w\<lparr>wordBuffer := x\<rparr>) = seqInv cfg w"
  by (simp add: seqInv_def)

lemma seqInv_wordHasNbsp [simp]: "seqInv cfg (w\<lparr>wordHasNbsp := x\<rparr>) = seqInv cfg w"
  by (simp add: seqInv_def)

lemma seqInv_pos [simp]:
  "origStartLineByte p = origStartLineByte (pos w) \<Longrightarrow>
   origStartLineRune p = origStartLineRune (pos w) \<Longrightarrow>
   seqInv cfg (w\<lparr>pos := p\<rparr>) = seqInv cfg w"
  by (simp add: seqInv_def)

lemma seqInv_writeSoftLine:
  "seqInv cfg w \<Longrightarrow> (endsSplit \<longrightarrow> splitWord cfg) \<Longrightarrow> seqInv cfg (writeSoftLine E w endsSplit)"
  by (simp add: writeSoftLine_def seqInv_writeLine)

lemma seqInv_flushLineBuffer: "seqInv cfg w \<Longrightarrow> seqInv cfg (flushLineBuffer E w len)"
  by (simp add: flushLineBuffer_def seqInv_writeSoftLine)

lemma seqInv_writeSpaceToLine: "seqInv cfg w \<Longrightarrow> seqInv cfg (writeSpaceToLine E w r)"
  by (simp add: writeSpaceToLine_def Let_def seqInv_flushLineBuffer)

lemma seqInv_writeTabToLine:
  assumes "writeTabToLine E w = Returns (w', adj)" and "seqInv cfg w"
  shows "seqInv cfg w'"
proof -
  define adj0 where "adj0 =
    (if tabSize (config w) > 0
     then tabSize (config w) - (curLineWidth (pos w) smod tabSize (config w)) else 0)"
  have "seqInv cfg (flushLineBuffer E w adj0)"
    using assms(2) by (rule seqInv_flushLineBuffer)
  with assms(1) show ?thesis
    by (auto simp: writeTabToLine_def Let_def adj0_def [symmetric] RepeatSpace_def
          split: if_splits)
qed

lemma seqInv_writeWord: "seqInv cfg w \<Longrightarrow> seqInv cfg (writeWord w)"
  by (simp add: writeWord_def)

lemma seqInv_splitWordStep:
  "seqInv cfg w \<Longrightarrow> splitWord (config w) \<Longrightarrow> seqInv cfg (splitWordStep E w)"
proof -
  assume a: "seqInv cfg w" and b: "splitWord (config w)"
  let ?g = "iter E (newGraphemeWordIter E (wordBuffer w)) (curLineWidth (pos w)) (limit (config w))"
  have c: "splitWord cfg" using a b by (simp add: seqInv_def)
  have "seqInv cfg (writeSubWord E w ?g)"
    using a by (simp add: writeSubWord_def Let_def)
  then have "seqInv cfg (writeSoftLine E (writeSubWord E w ?g) (needsHyphen E ?g))"
    using c by (simp add: seqInv_writeSoftLine)
  then show ?thesis
    by (simp add: splitWordStep_def Let_def)
qed

lemma seqInv_flushWordBuffer:
  "flushWordBuffer E fuel w = Returns w' \<Longrightarrow> seqInv cfg w \<Longrightarrow> seqInv cfg w'"
proof (induction fuel arbitrary: w w')
  case 0
  then show ?case by simp
next
  case (Suc fuel)
  note inv = Suc.prems(2)
  show ?case
  proof (cases "curWritePosition (pos w) > limit (config w)")
    case False
    with Suc.prems show ?thesis
      by (auto simp: Let_def intro!: seqInv_writeWord)
  next
    case exceeds: True
    show ?thesis
    proof (cases "curWordWidth (pos w) = 0")
      case True
      with exceeds Suc.prems show ?thesis
        by (auto simp: Let_def intro!: seqInv_writeSoftLine)
    next
      case nz: False
      show ?thesis
      proof (cases "splitWord (config w) \<and> \<not> wordHasNbsp w")
        case True
        with exceeds nz Suc.prems(1)
        obtain v where v: "flushWordBuffer E fuel (splitWordStep E w) = Returns v"
          and w': "w' = v\<lparr>wordHasNbsp := False\<rparr>"
          by (auto simp: Let_def split: result.splits)
        from True inv have "seqInv cfg (splitWordStep E w)"
          by (simp add: seqInv_splitWordStep)
        with Suc.IH [OF v] have "seqInv cfg v" .
        with w' show ?thesis by simp
      next
        case False
        with exceeds nz Suc.prems show ?thesis
          by (auto simp: Let_def intro!: seqInv_writeWord seqInv_writeSoftLine)
      qed
    qed
  qed
qed


lemma seqInv_whitespaceCase:
  assumes "whitespaceCase E w r = Returns w'" and "seqInv cfg w"
  shows "seqInv cfg w'"
proof -
  have sp: "\<And>q. seqInv cfg (writeSpaceToLine E w q)"
    using assms(2) by (rule seqInv_writeSpaceToLine)
  have hard: "seqInv cfg (writeHardLine E w)"
    using assms(2) by (simp add: writeHardLine_def seqInv_writeLine)
  have tab: "\<And>v a. writeTabToLine E w = Returns (v, a) \<Longrightarrow> seqInv cfg v"
    using assms(2) by (auto elim: seqInv_writeTabToLine)
  from assms(1) show ?thesis
    using sp hard assms(2)
    by (auto simp: whitespaceCase_def andThen_def Let_def incrementOrigLine_def
          split: if_splits result.splits dest: tab)
qed

lemma seqInv_loopBody:
  "loopBody E fuel str (w, state, idx) = Returns (w', state', idx') \<Longrightarrow> seqInv cfg w \<Longrightarrow>
   seqInv cfg w'"
proof -
  assume r: "loopBody E fuel str (w, state, idx) = Returns (w', state', idx')"
    and inv: "seqInv cfg w"
  obtain r0 rSize nxt ok where aw: "ANSIWalk E str idx = (r0, rSize, nxt, ok)"
    by (cases "ANSIWalk E str idx") auto
  define pre where "pre =
    (if ok \<and> nxt - rSize > idx
     then andThen (flushWordBuffer E fuel w)
            (\<lambda>w1. andThen (slice str idx (nxt - rSize))
               (\<lambda>esc. Returns (writeANSIToLine w1 esc, - 1)))
     else Returns (w, state))"
  from r aw obtain w2 state2 where pre: "pre = Returns (w2, state2)"
    by (auto simp: loopBody_def Let_def andThen_def pre_def split: result.splits)
  have inv2: "seqInv cfg w2"
  proof (cases "ok \<and> nxt - rSize > idx")
    case True
    with pre obtain w1 esc where f: "flushWordBuffer E fuel w = Returns w1"
      and w2: "w2 = writeANSIToLine w1 esc"
      by (auto simp: pre_def andThen_def split: result.splits)
    from seqInv_flushWordBuffer [OF f inv] w2 show ?thesis
      by (simp add: writeANSIToLine_def)
  next
    case False
    with pre inv show ?thesis by (auto simp: pre_def)
  qed
  from r aw pre have rest:
    "(if r0 = 0xA0 then
        (let w3 = writeRuneToWord (w2\<lparr>wordHasNbsp := True\<rparr>) r0
         in Returns (w3\<lparr>pos := (pos w3)\<lparr>curWordWidth := curWordWidth (pos w3) + 1\<rparr>\<rparr>,
                     state2, nxt - rSize + rSize))
      else if IsSpace r0 then
        andThen (flushWordBuffer E fuel w2)
          (\<lambda>w3. andThen (whitespaceCase E w3 r0)
             (\<lambda>w4. Returns (w4, - 1, nxt - rSize + rSize)))
      else
        andThen (slice str (nxt - rSize) (int (length str)))
          (\<lambda>rest.
             (let (cluster, st) = StepString E rest state2 in
              if cluster \<noteq> [] then
                (let clusterWidth = StringWidth E cluster;
                     w3 = w2\<lparr>pos := (pos w2)\<lparr>curWordWidth :=
                                                 curWordWidth (pos w2) + clusterWidth\<rparr>\<rparr>
                 in Returns (writeStrToWord w3 cluster, st, nxt - rSize + int (length cluster)))
              else Returns (w2, st, nxt - rSize + rSize)))) = Returns (w', state', idx')"
    by (simp add: loopBody_def Let_def pre_def [symmetric] andThen_def)
  show ?thesis
  proof (cases "r0 = 0xA0")
    case True
    with rest inv2 show ?thesis
      by (auto simp: Let_def writeRuneToWord_def)
  next
    case nb: False
    show ?thesis
    proof (cases "IsSpace r0")
      case True
      with nb rest obtain w3 where f: "flushWordBuffer E fuel w2 = Returns w3"
        and ws: "whitespaceCase E w3 r0 = Returns w'"
        by (auto simp: andThen_def split: result.splits)
      from seqInv_whitespaceCase [OF ws seqInv_flushWordBuffer [OF f inv2]] show ?thesis .
    next
      case False
      with nb rest inv2 show ?thesis
        by (auto simp: andThen_def Let_def writeStrToWord_def
              split: result.splits prod.splits if_splits)
    qed
  qed
qed

lemma seqInv_wrapLoop:
  "wrapLoop E fuel str s = Returns s' \<Longrightarrow> seqInv cfg (fst s) \<Longrightarrow> seqInv cfg (fst s')"
proof (induction fuel arbitrary: s)
  case 0
  then show ?case by simp
next
  case (Suc fuel)
  show ?case
  proof (cases "snd (snd s) < int (length str)")
    case True
    with Suc.prems(1) obtain t where b: "loopBody E fuel str s = Returns t"
      and l: "wrapLoop E fuel str t = Returns s'"
      by (auto simp: andThen_def split: result.splits)
    obtain w state idx where s: "s = (w, state, idx)" by (cases s) auto
    obtain w1 state1 idx1 where t: "t = (w1, state1, idx1)" by (cases t) auto
    from seqInv_loopBody [of E fuel str w state idx w1 state1 idx1 cfg] b s t Suc.prems(2)
    have "seqInv cfg (fst t)" by simp
    with Suc.IH [OF l] show ?thesis .
  next
    case False
    with Suc.prems show ?thesis by simp
  qed
qed

lemma seqOk_markLast:
  assumes "seqOk cfg s eb er" and "WrappedLines s \<noteq> []"
  shows "seqOk cfg
           (s\<lparr>WrappedLines := butlast (WrappedLines s)
                 @ [(last (WrappedLines s))\<lparr>LastSegmentInOrig := True\<rparr>]\<rparr>) eb er"
proof -
  from assms(2) obtain xs x where ls: "WrappedLines s = xs @ [x]"
    by (cases "WrappedLines s" rule: rev_cases) auto
  with assms(1) show ?thesis
    by (auto simp: seqOk_def tiled_snoc)
qed

lemma finishTail_seqOk:
  assumes "(case lastWrappedLine q of
              None \<Rightarrow> Returns (b, Some q, None)
            | Some lastLine \<Rightarrow>
                if \<not> IsHardBreak lastLine then
                  (if b = [] then Panics
                   else Returns
                          (butlast b,
                           Some (q\<lparr>WrappedLines :=
                                      butlast (WrappedLines q)
                                      @ [lastLine\<lparr>LastSegmentInOrig := True\<rparr>]\<rparr>),
                           None))
                else Returns (b, Some q, None)) = Returns (out, Some s, err)"
    and "seqOk cfg q eb er"
  shows "seqOk cfg s eb er"
proof (cases "WrappedLines q = []")
  case True
  with assms show ?thesis by (simp add: lastWrappedLine_def)
next
  case False
  show ?thesis
  proof (cases "IsHardBreak (last (WrappedLines q))")
    case True
    with False assms show ?thesis by (simp add: lastWrappedLine_def)
  next
    case hb: False
    with False assms(1) have "s = q\<lparr>WrappedLines :=
        butlast (WrappedLines q) @ [(last (WrappedLines q))\<lparr>LastSegmentInOrig := True\<rparr>]\<rparr>"
      by (simp add: lastWrappedLine_def split: if_splits)
    with seqOk_markLast [OF assms(2) False] show ?thesis by simp
  qed
qed

lemma finishWrap_seqOk:
  assumes "finishWrap E w = Returns (out, Some s, err)" and "seqInv cfg w"
  shows "\<exists>eb er. seqOk cfg s eb er"
proof -
  define w1 where "w1 = (if lineBuffer w \<noteq> [] then writeSoftLine E w False else w)"
  have "seqInv cfg w1"
    using assms(2) by (simp add: w1_def seqInv_writeSoftLine)
  then have ok: "seqOk cfg (wrappedStringSeq w1) (origStartLineByte (pos w1))
                    (origStartLineRune (pos w1))"
    by (simp add: seqInv_def)
  from assms(1) [unfolded finishWrap_def Let_def, folded w1_def]
  have "seqOk cfg s (origStartLineByte (pos w1)) (origStartLineRune (pos w1))"
    using ok by (rule finishTail_seqOk)
  then show ?thesis by blast
qed

lemma seqInv_initialState:
  "seqInv \<lparr>limit = lim, tabSize = tab, trimWhitespace = trim, splitWord = split\<rparr>
     (initialState lim tab trim split)"
  by (simp add: seqInv_def seqOk_def initialState_def)

lemma stringWrap_seqOk:
  assumes "stringWrap E fuel str lim tab trim split = Returns (out, Some s, err)"
  shows "\<exists>eb er. seqOk \<lparr>limit = lim, tabSize = tab, trimWhitespace = trim, splitWord = split\<rparr>
                   s eb er"
proof -
  let ?cfg = "\<lparr>limit = lim, tabSize = tab, trimWhitespace = trim, splitWord = split\<rparr>"
  from assms have lim: "\<not> lim < 2"
    by (auto simp: stringWrap_def)
  with assms obtain w state idx w1 where
    loop: "wrapLoop E fuel str (initialState lim tab trim split, - 1, 0) = Returns (w, state, idx)"
    and fl: "flushWordBuffer E fuel w = Returns w1"
    and fin: "finishWrap E w1 = Returns (out, Some s, err)"
    by (auto simp: stringWrap_def andThen_def split: result.splits)
  from seqInv_wrapLoop [OF loop] seqInv_initialState have "seqInv ?cfg w" by simp
  with seqInv_flushWordBuffer [OF fl] have "seqInv ?cfg w1" by simp
  with fin show ?thesis by (rule finishWrap_seqOk)
qed

subsection \<open>Fuel\<close>

text \<open>A call that returns or panics with some fuel does the same with any more fuel.\<close>

lemma flushWordBuffer_mono:
  "flushWordBuffer E n w \<noteq> OutOfFuel \<Longrightarrow> flushWordBuffer E (n + k) w = flushWordBuffer E n w"
proof (induction n arbitrary: w)
  case 0
  then show ?case by simp
next
  case (Suc n)
  show ?case
  proof (cases "curWritePosition (pos w) > limit (config w) \<and> curWordWidth (pos w) \<noteq> 0
                 \<and> splitWord (config w) \<and> \<not> wordHasNbsp w")
    case True
    with Suc.prems have "flushWordBuffer E n (splitWordStep E w) \<noteq> OutOfFuel"
      by (auto simp: Let_def split: result.splits)
    from Suc.IH [OF this] True show ?thesis
      by (simp add: Let_def)
  next
    case False
    then show ?thesis
      by (auto simp: Let_def)
  qed
qed

lemma andThen_mono:
  assumes "andThen m f \<noteq> OutOfFuel"
    and "m \<noteq> OutOfFuel \<Longrightarrow> m' = m"
    and "\<And>x. m = Returns x \<Longrightarrow> f x \<noteq> OutOfFuel \<Longrightarrow> f' x = f x"
  shows "andThen m' f' = andThen m f"
  using assms by (cases m) (auto simp: andThen_def)

lemma loopBody_mono:
  assumes "loopBody E n str s \<noteq> OutOfFuel"
  shows "loopBody E (n + k) str s = loopBody E n str s"
proof -
  obtain w state idx where s: "s = (w, state, idx)" by (cases s) auto
  obtain r rSize nxt ok where aw: "ANSIWalk E str idx = (r, rSize, nxt, ok)"
    by (cases "ANSIWalk E str idx") auto
  from assms show ?thesis
    unfolding loopBody_def s aw Let_def prod.case
    by (intro andThen_mono)
       (auto simp: flushWordBuffer_mono intro!: andThen_mono split: if_splits)
qed

lemma wrapLoop_mono:
  "wrapLoop E n str s \<noteq> OutOfFuel \<Longrightarrow> wrapLoop E (n + k) str s = wrapLoop E n str s"
proof (induction n arbitrary: s)
  case 0
  then show ?case by simp
next
  case (Suc n)
  show ?case
  proof (cases "snd (snd s) < int (length str)")
    case True
    with Suc.prems have a: "andThen (loopBody E n str s) (wrapLoop E n str) \<noteq> OutOfFuel"
      by simp
    have "andThen (loopBody E (n + k) str s) (wrapLoop E (n + k) str)
            = andThen (loopBody E n str s) (wrapLoop E n str)"
      using a by (rule andThen_mono) (auto simp: loopBody_mono Suc.IH)
    with True show ?thesis by simp
  next
    case False
    then show ?thesis by simp
  qed
qed

lemma stringWrap_mono:
  assumes "stringWrap E n str lim tab trim split \<noteq> OutOfFuel"
  shows "stringWrap E (n + k) str lim tab trim split = stringWrap E n str lim tab trim split"
proof (cases "lim < 2")
  case True
  then show ?thesis by (simp add: stringWrap_def)
next
  case False
  with assms have a:
    "andThen (wrapLoop E n str (initialState lim tab trim split, - 1, 0))
       (\<lambda>(w, state, idx). andThen (flushWordBuffer E n w) (finishWrap E)) \<noteq> OutOfFuel"
    by (simp add: stringWrap_def)
  have "andThen (wrapLoop E (n + k) str (initialState lim tab trim split, - 1, 0))
          (\<lambda>(w, state, idx). andThen (flushWordBuffer E (n + k) w) (finishWrap E))
        = andThen (wrapLoop E n str (initialState lim tab trim split, - 1, 0))
            (\<lambda>(w, state, idx). andThen (flushWordBuffer E n w) (finishWrap E))"
    using a by (rule andThen_mono)
      (auto simp: wrapLoop_mono flushWordBuffer_mono intro!: andThen_mono)
  with False show ?thesis by (simp add: stringWrap_def)
qed

subsection \<open>Line feeds in the output\<close>








lemma linesInv_pos [simp]: "linesInv (w\<lparr>pos := p\<rparr>) = linesInv w"
  by (simp add: linesInv_def)

lemma linesInv_wordHasNbsp [simp]: "linesInv (w\<lparr>wordHasNbsp := b\<rparr>) = linesInv w"
  by (simp add: linesInv_def)
















lemma terminated_Nil_iff: "terminated ts = [] \<longleftrightarrow> ts = []"
  by (cases ts) (simp_all add: terminated_def)











section \<open>The claims\<close>

lemma stringWrap_success_Some:
  assumes "stringWrap E fuel str lim tab trim split = Returns (out, sq, None)"
  shows "\<exists>s. sq = Some s"
proof -
  from assms have "\<not> lim < 2"
    by (auto simp: stringWrap_def)
  with assms obtain w1 where "finishWrap E w1 = Returns (out, sq, None)"
    by (auto simp: stringWrap_def andThen_def split: result.splits)
  then show ?thesis
    by (auto simp: finishWrap_def Let_def split: option.splits if_splits)
qed

text \<open>
  Claim C1. For every input accepted without error, the segments tile the input
  contiguously: the byte interval and the rune interval of the first segment start at 0,
  and the \<open>End\<close> of every segment is the \<open>Start\<close> of the next one, for the byte intervals and
  for the rune intervals.
\<close>

theorem segments_tile_input:
  assumes "stringWrap E fuel str lim tab trim split = Returns (out, Some s, err)"
  shows "(WrappedLines s \<noteq> [] \<longrightarrow>
            Start (OrigByteOffset (WrappedLines s ! 0)) = 0
            \<and> Start (OrigRuneOffset (WrappedLines s ! 0)) = 0)
         \<and> (\<forall>i. Suc i < length (WrappedLines s) \<longrightarrow>
               End (OrigByteOffset (WrappedLines s ! i))
                 = Start (OrigByteOffset (WrappedLines s ! Suc i))
               \<and> End (OrigRuneOffset (WrappedLines s ! i))
                 = Start (OrigRuneOffset (WrappedLines s ! Suc i)))"
proof -
  from stringWrap_seqOk [OF assms] obtain eb er where
    b: "tiled 0 (map OrigByteOffset (WrappedLines s)) eb"
    and r: "tiled 0 (map OrigRuneOffset (WrappedLines s)) er"
    by (auto simp: seqOk_def)
  have "WrappedLines s \<noteq> [] \<longrightarrow>
          Start (OrigByteOffset (WrappedLines s ! 0)) = 0
          \<and> Start (OrigRuneOffset (WrappedLines s ! 0)) = 0"
    using tiled_hd [OF b] tiled_hd [OF r] by (cases "WrappedLines s") auto
  moreover have "\<forall>i. Suc i < length (WrappedLines s) \<longrightarrow>
               End (OrigByteOffset (WrappedLines s ! i))
                 = Start (OrigByteOffset (WrappedLines s ! Suc i))
               \<and> End (OrigRuneOffset (WrappedLines s ! i))
                 = Start (OrigRuneOffset (WrappedLines s ! Suc i))"
    using tiled_nth [OF b] tiled_nth [OF r] by auto
  ultimately show ?thesis by blast
qed

theorem segments_tile_input_witness:
  "\<exists>out s. stringWrap refExt 40 (''Hello world!'' @ [LF] @ ''Final'') 8 4 True False
              = Returns (out, Some s, None)
     \<and> length (WrappedLines s) = 3
     \<and> Start (OrigByteOffset (WrappedLines s ! 0)) = 0
     \<and> Start (OrigRuneOffset (WrappedLines s ! 0)) = 0
     \<and> End (OrigByteOffset (WrappedLines s ! 0)) = Start (OrigByteOffset (WrappedLines s ! 1))
     \<and> End (OrigByteOffset (WrappedLines s ! 1)) = Start (OrigByteOffset (WrappedLines s ! 2))
     \<and> End (OrigRuneOffset (WrappedLines s ! 0)) = Start (OrigRuneOffset (WrappedLines s ! 1))
     \<and> End (OrigRuneOffset (WrappedLines s ! 1)) = Start (OrigRuneOffset (WrappedLines s ! 2))"
proof -
  let ?s = "\<lparr>WrappedLines =
       [\<lparr>CurLineNum = 1, OrigLineNum = 1,
           OrigByteOffset = \<lparr>Start = 0, End = 6\<rparr>,
           OrigRuneOffset = \<lparr>Start = 0, End = 6\<rparr>, SegmentInOrig = 1,
           LastSegmentInOrig = False, NotWithinLimit = False,
           IsHardBreak = False, Width = 5, EndsWithSplitWord = False\<rparr>,
        \<lparr>CurLineNum = 2, OrigLineNum = 1,
           OrigByteOffset = \<lparr>Start = 6, End = 13\<rparr>,
           OrigRuneOffset = \<lparr>Start = 6, End = 13\<rparr>, SegmentInOrig = 2,
           LastSegmentInOrig = True, NotWithinLimit = False,
           IsHardBreak = True, Width = 6, EndsWithSplitWord = False\<rparr>,
        \<lparr>CurLineNum = 3, OrigLineNum = 2,
           OrigByteOffset = \<lparr>Start = 13, End = 18\<rparr>,
           OrigRuneOffset = \<lparr>Start = 13, End = 18\<rparr>, SegmentInOrig = 1,
           LastSegmentInOrig = True, NotWithinLimit = False,
           IsHardBreak = False, Width = 5, EndsWithSplitWord = False\<rparr>],
       WordSplitAllowed = False, TabSize = 4, Limit = 8\<rparr>"
  have h: "stringWrap refExt 40 (''Hello world!'' @ [LF] @ ''Final'') 8 4 True False
             = Returns (''Hello'' @ [LF] @ ''world!'' @ [LF] @ ''Final'', Some ?s, None)"
    by code_simp
  note t = segments_tile_input [OF h]
  have "Start (OrigByteOffset (WrappedLines ?s ! 0)) = 0
     \<and> Start (OrigRuneOffset (WrappedLines ?s ! 0)) = 0"
    using t [THEN conjunct1] by simp
  moreover have "End (OrigByteOffset (WrappedLines ?s ! 0)) = Start (OrigByteOffset (WrappedLines ?s ! 1))
     \<and> End (OrigRuneOffset (WrappedLines ?s ! 0)) = Start (OrigRuneOffset (WrappedLines ?s ! 1))"
    using t [THEN conjunct2, THEN spec, of 0] by simp
  moreover have "End (OrigByteOffset (WrappedLines ?s ! 1)) = Start (OrigByteOffset (WrappedLines ?s ! 2))
     \<and> End (OrigRuneOffset (WrappedLines ?s ! 1)) = Start (OrigRuneOffset (WrappedLines ?s ! 2))"
    using t [THEN conjunct2, THEN spec, of 1] by simp
  moreover have "length (WrappedLines ?s) = 3" by simp
  ultimately show ?thesis
    using h by (intro exI [of _ "''Hello'' @ [LF] @ ''world!'' @ [LF] @ ''Final''"] exI [of _ ?s])
      (simp only: simp_thms)
qed




lemma invalid_limit_rejected:
  "lim < 2 \<Longrightarrow>
   StringWrap E fuel str lim tab trim = Returns ([], None, Some ''limit must be greater than one'')
   \<and> StringWrapSplit E fuel str lim tab trim
       = Returns ([], None, Some ''limit must be greater than one'')"
  by (simp add: StringWrap_def StringWrapSplit_def stringWrap_def)

lemma nil_error_when_returning:
  "2 \<le> lim \<Longrightarrow> stringWrap E fuel str lim tab trim split = Returns (out, sq, err) \<Longrightarrow>
   err = None \<and> sq \<noteq> None"
  by (auto simp: stringWrap_def andThen_def finishWrap_def Let_def
        split: result.splits option.splits if_splits)

text \<open>
  Claim C3. If \<^verbatim>\<open>limit < 2\<close>, both entry points return an error, an empty text and no
  sequence; if \<^verbatim>\<open>limit >= 2\<close> they return a nil error for every input, tab size and
  trimming flag.

  The first half holds (\<open>invalid_limit_rejected\<close>), and a call with \<^verbatim>\<open>limit >= 2\<close> that returns
  does return a nil error (\<open>nil_error_when_returning\<close>). But such a call need not return: on
  the input \<^verbatim>\<open>"\t"\<close> with a tab size of -1 and no trimming, \<^verbatim>\<open>writeTabToLine\<close> finds the line
  buffer empty, takes the tab size itself as the number of spaces, and \<^verbatim>\<open>strings.Repeat\<close>
  panics on the negative count. The guard \<^verbatim>\<open>tabSize > 0\<close> of the same function covers the
  modulo only. This holds with any collaborators for which \<^verbatim>\<open>ANSIWalk\<close> finds the tab at
  index 0, whatever its flag, and with any fuel that lets the loop reach it.
\<close>

theorem negative_tab_size_panics:
  assumes "ANSIWalk E [CHR 0x09] 0 = (0x09, 1, 1, ok)"
  shows "StringWrap E (Suc (Suc fuel)) [CHR 0x09] 2 (- 1) False = Panics"
proof -
  let ?w = "initialState 2 (- 1) False False"
  have fl: "flushWordBuffer E (Suc fuel) ?w = Returns ?w"
    by (simp add: initialState_def Let_def curWritePosition_def writeWord_def)
  have tab: "writeTabToLine E ?w = Panics"
    by (simp add: writeTabToLine_def initialState_def Let_def flushLineBuffer_def RepeatSpace_def)
  have ws: "whitespaceCase E ?w 0x09 = Panics"
    by (simp add: whitespaceCase_def tab andThen_def)
  have lb: "loopBody E (Suc fuel) [CHR 0x09] (?w, - 1, 0) = Panics"
    using assms
    by (simp add: loopBody_def IsSpace_def fl ws andThen_def del: flushWordBuffer.simps)
  have "wrapLoop E (Suc (Suc fuel)) [CHR 0x09] (?w, - 1, 0) = Panics"
    by (simp add: lb andThen_def)
  then show ?thesis
    by (simp add: StringWrap_def stringWrap_def andThen_def)
qed

theorem negative_tab_size_panics_witness:
  "ANSIWalk refExt [CHR 0x09] 0 = (0x09, 1, 1, False)
   \<and> StringWrap refExt (Suc (Suc 0)) [CHR 0x09] 2 (- 1) False = Panics"
proof -
  have h: "ANSIWalk refExt [CHR 0x09] 0 = (0x09, 1, 1, False)" by code_simp
  from negative_tab_size_panics [OF h, of 0] h show ?thesis by simp
qed

lemma iter_stuck:
  assumes "graphemes g = c # rest" and "subWordBuffer g = []" and "subWordWidth g = 0"
    and "nextClusterWidth g = 0" and "cluster g = []" and "0 < lim"
    and "lim \<le> StringWidth E c"
  shows "subWordBuffer (iter E g 0 lim) = [] \<and> subWordWidth (iter E g 0 lim) = 0"
proof -
  let ?g1 = "g\<lparr>preLimitCluster := cluster g, cluster := c,
               subWordWidth := subWordWidth g + nextClusterWidth g,
               nextClusterWidth := StringWidth E c,
               subWordBuffer := subWordBuffer g @ cluster g, graphemes := rest\<rparr>"
  have 1: "iter E g 0 lim = iter E ?g1 0 lim"
    using assms by (subst iter.simps) (simp add: totalWidth_def)
  have 2: "subWordBuffer (iter E ?g1 0 lim) = [] \<and> subWordWidth (iter E ?g1 0 lim) = 0"
    using assms by (subst (1 2) iter.simps) (simp add: totalWidth_def split: list.splits)
  from 1 2 show ?thesis by simp
qed

lemma splitWordStep_stuck:
  assumes "curLineWidth (pos w) = 0" and "0 < limit (config w)"
    and "Graphemes E (wordBuffer w) = c # rest" and "limit (config w) \<le> StringWidth E c"
  shows "wordBuffer (splitWordStep E w) = wordBuffer w
         \<and> config (splitWordStep E w) = config w
         \<and> wordHasNbsp (splitWordStep E w) = wordHasNbsp w
         \<and> curLineWidth (pos (splitWordStep E w)) = 0
         \<and> curWordWidth (pos (splitWordStep E w)) = curWordWidth (pos w)"
proof -
  let ?g = "iter E (newGraphemeWordIter E (wordBuffer w)) (curLineWidth (pos w)) (limit (config w))"
  have "subWordBuffer ?g = [] \<and> subWordWidth ?g = 0"
    unfolding assms(1) using assms(2-4)
    by (intro iter_stuck [where c = c and rest = rest]) (simp_all add: newGraphemeWordIter_def)
  then show ?thesis
    by (simp add: splitWordStep_def Let_def writeSubWord_def writeSoftLine_def writeLine_def
          incrementCurLine_def split: prod.splits)
qed

lemma flushWordBuffer_stuck:
  assumes "splitWord (config w)" and "\<not> wordHasNbsp w" and "curLineWidth (pos w) = 0"
    and "0 < limit (config w)" and "limit (config w) < curWordWidth (pos w)"
    and "Graphemes E (wordBuffer w) = c # rest" and "limit (config w) \<le> StringWidth E c"
  shows "flushWordBuffer E fuel w = OutOfFuel"
  using assms
proof (induction fuel arbitrary: w)
  case 0
  then show ?case by simp
next
  case (Suc fuel)
  note s = splitWordStep_stuck [OF Suc.prems(3,4,6,7)]
  have "flushWordBuffer E fuel (splitWordStep E w) = OutOfFuel"
    using Suc.prems s by (intro Suc.IH) simp_all
  with Suc.prems show ?case
    by (simp add: Let_def curWritePosition_def)
qed

lemma wide_loop:
  "wrapLoop refExt 3 [CHR 0xE4, CHR 0xB8, CHR 0x96, CHR 0xE7, CHR 0x95, CHR 0x8C]
     (initialState 2 4 True True, - 1, 0)
   = Returns ((initialState 2 4 True True)
                \<lparr>wordBuffer := [CHR 0xE4, CHR 0xB8, CHR 0x96, CHR 0xE7, CHR 0x95, CHR 0x8C],
                 pos := (pos (initialState 2 4 True True))\<lparr>curWordWidth := 4\<rparr>\<rparr>, 0, 6)"
  by code_simp

lemma wide_graphemes:
  "Graphemes refExt [CHR 0xE4, CHR 0xB8, CHR 0x96, CHR 0xE7, CHR 0x95, CHR 0x8C]
     = [CHR 0xE4, CHR 0xB8, CHR 0x96] # [[CHR 0xE7, CHR 0x95, CHR 0x8C]]"
  by code_simp

lemma wide_width: "StringWidth refExt [CHR 0xE4, CHR 0xB8, CHR 0x96] = 2"
  by code_simp

text \<open>
  Claim C4. The word-splitting recursion of \<^verbatim>\<open>flushWordBuffer\<close> terminates on every word:
  each split step consumes at least one grapheme cluster, and a single cluster wider than
  the limit is emitted on a line of its own rather than looping.

  The code does not do this. When the line is empty and the first cluster of the word is as
  wide as the limit, \<^verbatim>\<open>iter\<close> stops with an empty sub-word: the split step writes an empty
  line, removes nothing from the word buffer and recurses on the same state
  (\<open>flushWordBuffer_stuck\<close>). On the two wide characters U+4E16 U+754C with limit 2 the call
  is out of fuel for every amount of fuel: it never returns.
\<close>

theorem wide_cluster_split_never_returns:
  "StringWrapSplit refExt fuel [CHR 0xE4, CHR 0xB8, CHR 0x96, CHR 0xE7, CHR 0x95, CHR 0x8C] 2 4 True
     = OutOfFuel"
proof -
  let ?str = "[CHR 0xE4, CHR 0xB8, CHR 0x96, CHR 0xE7, CHR 0x95, CHR 0x8C]"
  let ?w = "(initialState 2 4 True True)
              \<lparr>wordBuffer := ?str, pos := (pos (initialState 2 4 True True))\<lparr>curWordWidth := 4\<rparr>\<rparr>"
  let ?loop = "wrapLoop refExt fuel ?str (initialState 2 4 True True, - 1, 0)"
  have stuck: "flushWordBuffer refExt fuel ?w = OutOfFuel"
    by (rule flushWordBuffer_stuck [where c = "[CHR 0xE4, CHR 0xB8, CHR 0x96]"
          and rest = "[[CHR 0xE7, CHR 0x95, CHR 0x8C]]"])
       (simp_all add: initialState_def wide_graphemes wide_width)
  have "?loop = OutOfFuel \<or> ?loop = Returns (?w, 0, 6)"
  proof (cases "?loop = OutOfFuel")
    case True
    then show ?thesis by simp
  next
    case False
    show ?thesis
    proof (cases "fuel \<le> 3")
      case True
      from wrapLoop_mono [OF False, of "3 - fuel"] True wide_loop show ?thesis by simp
    next
      case f: False
      have "wrapLoop refExt (3 + (fuel - 3)) ?str (initialState 2 4 True True, - 1, 0)
              = wrapLoop refExt 3 ?str (initialState 2 4 True True, - 1, 0)"
        by (rule wrapLoop_mono) (simp add: wide_loop)
      with f wide_loop show ?thesis by simp
    qed
  qed
  then show ?thesis
    using stuck by (auto simp: StringWrapSplit_def stringWrap_def andThen_def)
qed

lemma isWordyGrapheme_Nil:
  "\<not> IsLetter E RuneError \<Longrightarrow> \<not> IsNumber E RuneError \<Longrightarrow> \<not> isWordyGrapheme E []"
  by (simp add: isWordyGrapheme_def)

lemma concat_take_snoc:
  "1 \<le> k \<Longrightarrow> k \<le> length cs \<Longrightarrow> concat (take (k - 1) cs) @ cs ! (k - 1) = concat (take k cs)"
proof -
  assume a: "1 \<le> k" "k \<le> length cs"
  then have "take k cs = take (k - 1) cs @ [cs ! (k - 1)]"
    using take_Suc_conv_app_nth [of "k - 1" cs] by simp
  then show ?thesis by simp
qed

lemma iter_run:
  assumes "1 \<le> k" and "k \<le> length cs" and "graphemes g = drop k cs"
    and "cluster g = cs ! (k - 1)" and "subWordBuffer g = concat (take (k - 1) cs)"
    and "preLimitCluster g = (if k = 1 then [] else cs ! (k - 2))"
  shows "\<exists>k'. k \<le> k' \<and> k' \<le> length cs
           \<and> cluster (iter E g lw lim) = cs ! (k' - 1)
           \<and> subWordBuffer (iter E g lw lim) = concat (take (k' - 1) cs)
           \<and> preLimitCluster (iter E g lw lim) = (if k' = 1 then [] else cs ! (k' - 2))"
  using assms
proof (induction "length cs - k" arbitrary: g k)
  case 0
  then have "graphemes g = []" by simp
  then have "iter E g lw lim = g" by (subst iter.simps) simp
  with "0.prems" show ?case by auto
next
  case (Suc n)
  from Suc.hyps(2) have lt: "k < length cs" by simp
  then have dr: "drop k cs = cs ! k # drop (Suc k) cs"
    by (simp add: Cons_nth_drop_Suc)
  show ?case
  proof (cases "totalWidth g lw < lim")
    case True
    let ?g = "g\<lparr>preLimitCluster := cluster g, cluster := cs ! k,
                subWordWidth := subWordWidth g + nextClusterWidth g,
                nextClusterWidth := StringWidth E (cs ! k),
                subWordBuffer := subWordBuffer g @ cluster g,
                graphemes := drop (Suc k) cs\<rparr>"
    have it: "iter E g lw lim = iter E ?g lw lim"
      using True Suc.prems(3) dr by (subst iter.simps) simp
    have "\<exists>k'. Suc k \<le> k' \<and> k' \<le> length cs
           \<and> cluster (iter E ?g lw lim) = cs ! (k' - 1)
           \<and> subWordBuffer (iter E ?g lw lim) = concat (take (k' - 1) cs)
           \<and> preLimitCluster (iter E ?g lw lim) = (if k' = 1 then [] else cs ! (k' - 2))"
    proof (rule Suc.hyps(1))
      show "n = length cs - Suc k" using Suc.hyps(2) by simp
      show "1 \<le> Suc k" by simp
      show "Suc k \<le> length cs" using lt by simp
      show "graphemes ?g = drop (Suc k) cs" by simp
      show "cluster ?g = cs ! (Suc k - 1)" by simp
      show "subWordBuffer ?g = concat (take (Suc k - 1) cs)"
        using Suc.prems(1,2,4,5) concat_take_snoc [of k cs] by simp
      show "preLimitCluster ?g = (if Suc k = 1 then [] else cs ! (Suc k - 2))"
        using Suc.prems(1,4) by (cases k) auto
    qed
    then obtain k' where "Suc k \<le> k'" "k' \<le> length cs"
      "cluster (iter E ?g lw lim) = cs ! (k' - 1)"
      "subWordBuffer (iter E ?g lw lim) = concat (take (k' - 1) cs)"
      "preLimitCluster (iter E ?g lw lim) = (if k' = 1 then [] else cs ! (k' - 2))"
      by blast
    with it show ?thesis
      by (intro exI [of _ k']) simp
  next
    case False
    then have "iter E g lw lim = g\<lparr>graphemes := drop (Suc k) cs\<rparr>"
      using Suc.prems(3) dr by (subst iter.simps) simp
    with Suc.prems show ?thesis by (intro exI [of _ k]) simp
  qed
qed

lemma iter_cut:
  assumes "\<not> IsLetter E RuneError" and "\<not> IsNumber E RuneError"
  shows "\<exists>j. (j < length (Graphemes E word) \<or> j = 0)
           \<and> subWordBuffer (iter E (newGraphemeWordIter E word) lw lim)
               = concat (take j (Graphemes E word))
           \<and> needsHyphen E (iter E (newGraphemeWordIter E word) lw lim)
               = (0 < j \<and> isWordyGrapheme E (Graphemes E word ! (j - 1))
                  \<and> isWordyGrapheme E (Graphemes E word ! j))"
proof -
  let ?cs = "Graphemes E word"
  let ?g0 = "newGraphemeWordIter E word"
  note nw = isWordyGrapheme_Nil [OF assms]
  show ?thesis
  proof (cases "?cs = [] \<or> \<not> totalWidth ?g0 lw < lim")
    case True
    then have "iter E ?g0 lw lim = ?g0 \<or> iter E ?g0 lw lim = ?g0\<lparr>graphemes := tl ?cs\<rparr>"
      by (subst (1 2) iter.simps) (auto simp: newGraphemeWordIter_def split: list.splits)
    then have "subWordBuffer (iter E ?g0 lw lim) = [] \<and> cluster (iter E ?g0 lw lim) = []"
      by (auto simp: newGraphemeWordIter_def)
    with nw show ?thesis
      by (intro exI [of _ 0]) (simp add: needsHyphen_def)
  next
    case False
    then obtain c rest where cs: "?cs = c # rest" and tw: "totalWidth ?g0 lw < lim"
      by (cases ?cs) auto
    let ?g1 = "?g0\<lparr>preLimitCluster := cluster ?g0, cluster := c,
                  subWordWidth := subWordWidth ?g0 + nextClusterWidth ?g0,
                  nextClusterWidth := StringWidth E c,
                  subWordBuffer := subWordBuffer ?g0 @ cluster ?g0,
                  graphemes := rest\<rparr>"
    have it: "iter E ?g0 lw lim = iter E ?g1 lw lim"
      using tw cs by (subst iter.simps) (simp add: newGraphemeWordIter_def)
    have "\<exists>k'. 1 \<le> k' \<and> k' \<le> length ?cs
           \<and> cluster (iter E ?g1 lw lim) = ?cs ! (k' - 1)
           \<and> subWordBuffer (iter E ?g1 lw lim) = concat (take (k' - 1) ?cs)
           \<and> preLimitCluster (iter E ?g1 lw lim) = (if k' = 1 then [] else ?cs ! (k' - 2))"
      by (rule iter_run) (simp_all add: cs newGraphemeWordIter_def)
    then obtain k' where k: "1 \<le> k'" "k' \<le> length ?cs"
      and c: "cluster (iter E ?g0 lw lim) = ?cs ! (k' - 1)"
      and s: "subWordBuffer (iter E ?g0 lw lim) = concat (take (k' - 1) ?cs)"
      and p: "preLimitCluster (iter E ?g0 lw lim) = (if k' = 1 then [] else ?cs ! (k' - 2))"
      using it by auto
    show ?thesis
    proof (intro exI [of _ "k' - 1"] conjI)
      show "k' - 1 < length ?cs \<or> k' - 1 = 0" using k by auto
      show "subWordBuffer (iter E ?g0 lw lim) = concat (take (k' - 1) ?cs)" by (fact s)
      show "needsHyphen E (iter E ?g0 lw lim)
              = (0 < k' - 1 \<and> isWordyGrapheme E (?cs ! (k' - 1 - 1))
                 \<and> isWordyGrapheme E (?cs ! (k' - 1)))"
      proof (cases "k' = 1")
        case True
        with c p nw show ?thesis by (simp add: needsHyphen_def)
      next
        case False
        with k have "0 < k' - 1" and "k' - 1 - 1 = k' - 2" by auto
        with c p False show ?thesis by (auto simp: needsHyphen_def)
      qed
    qed
  qed
qed

text \<open>
  Claim C5. With splitting enabled, whenever a word is split across lines a hyphen is
  appended at the cut point if and only if the grapheme cluster immediately before the cut
  and the one immediately after it each begin with a letter or a number.

  The split branch of \<^verbatim>\<open>flushWordBuffer\<close> cuts the word after its first \<open>j\<close> clusters: the
  line written is the line buffer, these \<open>j\<close> clusters and a hyphen exactly when \<open>j > 0\<close> and
  the clusters \<open>j - 1\<close> and \<open>j\<close> are both wordy; the flag \<open>EndsWithSplitWord\<close> of the segment
  says the same. With \<open>j = 0\<close> the word moves to the next line whole and gets no hyphen.
  The code point U+FFFD, which \<^verbatim>\<open>DecodeRuneInString\<close> yields on the empty string, is
  neither a letter nor a number.
\<close>

theorem hyphen_iff_wordy_neighbours:
  assumes "curWritePosition (pos w) > limit (config w)" and "curWordWidth (pos w) \<noteq> 0"
    and "splitWord (config w)" and "\<not> wordHasNbsp w"
    and "\<not> IsLetter E RuneError" and "\<not> IsNumber E RuneError"
  shows "\<exists>j. (j < length (Graphemes E (wordBuffer w)) \<or> j = 0)
           \<and> (let cs = Graphemes E (wordBuffer w);
                   sub = concat (take j cs);
                   hyphen = (0 < j \<and> isWordyGrapheme E (cs ! (j - 1))
                             \<and> isWordyGrapheme E (cs ! j));
                   line = lineBuffer w @ sub @ (if hyphen then ''-'' else [])
               in flushWordBuffer E (Suc fuel) w
                    = (case flushWordBuffer E fuel (splitWordStep E w) of
                         Returns w' \<Rightarrow> Returns (w'\<lparr>wordHasNbsp := False\<rparr>)
                       | Panics \<Rightarrow> Panics
                       | OutOfFuel \<Rightarrow> OutOfFuel)
                  \<and> buffer (splitWordStep E w)
                      = buffer w
                        @ (if trimWhitespace (config w) then TrimRightSpace line else line)
                        @ [LF]
                  \<and> wordBuffer (splitWordStep E w) = drop (length sub) (wordBuffer w)
                  \<and> EndsWithSplitWord (last (WrappedLines (wrappedStringSeq (splitWordStep E w))))
                      = hyphen)"
proof -
  let ?g = "iter E (newGraphemeWordIter E (wordBuffer w)) (curLineWidth (pos w))
              (limit (config w))"
  from iter_cut [OF assms(5,6), of "wordBuffer w" "curLineWidth (pos w)" "limit (config w)"]
  obtain j where j: "j < length (Graphemes E (wordBuffer w)) \<or> j = 0"
    and s: "subWordBuffer ?g = concat (take j (Graphemes E (wordBuffer w)))"
    and h: "needsHyphen E ?g
              = (0 < j \<and> isWordyGrapheme E (Graphemes E (wordBuffer w) ! (j - 1))
                 \<and> isWordyGrapheme E (Graphemes E (wordBuffer w) ! j))"
    by blast
  have fl: "flushWordBuffer E (Suc fuel) w
              = (case flushWordBuffer E fuel (splitWordStep E w) of
                   Returns w' \<Rightarrow> Returns (w'\<lparr>wordHasNbsp := False\<rparr>)
                 | Panics \<Rightarrow> Panics
                 | OutOfFuel \<Rightarrow> OutOfFuel)"
    using assms(1-4) by (simp add: Let_def)
  have hy: "EncodeRune 0x2D = ''-''"
    by code_simp
  have bu: "buffer (splitWordStep E w)
              = buffer w
                @ (if trimWhitespace (config w)
                   then TrimRightSpace (lineBuffer w @ subWordBuffer ?g
                                         @ (if needsHyphen E ?g then ''-'' else []))
                   else lineBuffer w @ subWordBuffer ?g @ (if needsHyphen E ?g then ''-'' else []))
                @ [LF]"
    by (simp add: splitWordStep_def Let_def writeSubWord_def writeSoftLine_def writeLine_def hy
          split: prod.splits)
  have wb: "wordBuffer (splitWordStep E w) = drop (length (subWordBuffer ?g)) (wordBuffer w)"
    by (simp add: splitWordStep_def Let_def writeSubWord_def writeSoftLine_def writeLine_def
          split: prod.splits)
  have es: "EndsWithSplitWord (last (WrappedLines (wrappedStringSeq (splitWordStep E w))))
              = needsHyphen E ?g"
    by (simp add: splitWordStep_def Let_def writeSubWord_def writeSoftLine_def writeLine_def
          appendWrappedSeq_def split: prod.splits)
  show ?thesis
    using j fl bu wb es unfolding s h Let_def
    by (intro exI [of _ j]) simp
qed

theorem hyphen_iff_wordy_neighbours_witness:
  "let w = (initialState 5 4 True True)
             \<lparr>wordBuffer := ''Hello.'',
              pos := (pos (initialState 5 4 True True))\<lparr>curWordWidth := 6\<rparr>\<rparr>
   in curWritePosition (pos w) > limit (config w) \<and> curWordWidth (pos w) \<noteq> 0
      \<and> splitWord (config w) \<and> \<not> wordHasNbsp w
      \<and> \<not> IsLetter refExt RuneError \<and> \<not> IsNumber refExt RuneError
      \<and> Graphemes refExt (wordBuffer w) = [''H'', ''e'', ''l'', ''l'', ''o'', ''.'']
      \<and> buffer (splitWordStep refExt w) = ''Hell-'' @ [LF]
      \<and> wordBuffer (splitWordStep refExt w) = ''o.''
      \<and> (\<exists>j. (j < length (Graphemes refExt (wordBuffer w)) \<or> j = 0)
           \<and> (let cs = Graphemes refExt (wordBuffer w);
                   sub = concat (take j cs);
                   hyphen = (0 < j \<and> isWordyGrapheme refExt (cs ! (j - 1))
                             \<and> isWordyGrapheme refExt (cs ! j));
                   line = lineBuffer w @ sub @ (if hyphen then ''-'' else [])
               in flushWordBuffer refExt (Suc 5) w
                    = (case flushWordBuffer refExt 5 (splitWordStep refExt w) of
                         Returns w' \<Rightarrow> Returns (w'\<lparr>wordHasNbsp := False\<rparr>)
                       | Panics \<Rightarrow> Panics
                       | OutOfFuel \<Rightarrow> OutOfFuel)
                  \<and> buffer (splitWordStep refExt w)
                      = buffer w
                        @ (if trimWhitespace (config w) then TrimRightSpace line else line)
                        @ [LF]
                  \<and> wordBuffer (splitWordStep refExt w) = drop (length sub) (wordBuffer w)
                  \<and> EndsWithSplitWord
                       (last (WrappedLines (wrappedStringSeq (splitWordStep refExt w))))
                      = hyphen))"
proof -
  let ?w = "(initialState 5 4 True True)
              \<lparr>wordBuffer := ''Hello.'',
               pos := (pos (initialState 5 4 True True))\<lparr>curWordWidth := 6\<rparr>\<rparr>"
  have h1: "curWritePosition (pos ?w) > limit (config ?w)" by code_simp
  have h2: "curWordWidth (pos ?w) \<noteq> 0" by code_simp
  have h3: "splitWord (config ?w)" by code_simp
  have h4: "\<not> wordHasNbsp ?w" by code_simp
  have h5: "\<not> IsLetter refExt RuneError" by code_simp
  have h6: "\<not> IsNumber refExt RuneError" by code_simp
  have c1: "Graphemes refExt (wordBuffer ?w) = [''H'', ''e'', ''l'', ''l'', ''o'', ''.'']"
    by code_simp
  have c2: "buffer (splitWordStep refExt ?w) = ''Hell-'' @ [LF]" by code_simp
  have c3: "wordBuffer (splitWordStep refExt ?w) = ''o.''" by code_simp
  note t = hyphen_iff_wordy_neighbours [OF h1 h2 h3 h4 h5 h6, of 5]
  show ?thesis
    unfolding Let_def [of ?w]
    using h1 h2 h3 h4 h5 h6 c1 c2 c3 t by (intro conjI)
qed

lemma writeLine_trimmed_width:
  "trimWhitespace (config w) \<Longrightarrow>
   Width (last (WrappedLines (wrappedStringSeq (writeLine E w hardBreak endsSplit))))
     = StringWidth E (TrimRightSpace (lineBuffer w))"
  by (simp add: writeLine_def Let_def appendWrappedSeq_def split: prod.splits)

text \<open>
  Claim C6. Every escape sequence of the input appears unchanged in the output and
  contributes 0 columns to the recorded \<open>Width\<close> of every segment, for every configuration,
  trimming included.

  With trimming enabled the code does not do this: \<^verbatim>\<open>writeLine\<close> replaces the width of the
  line by the \<^verbatim>\<open>StringWidth\<close> of its text, escape bytes included (\<open>writeLine_trimmed_width\<close>).
  On \<^verbatim>\<open>"\x1b[31mred"\<close> the segment has \<open>Width = 7\<close>, the three letters and the four
  printable bytes of the escape sequence, and its byte interval ends at 4 for an input of 8
  bytes.
\<close>

theorem escape_bytes_counted_in_trimmed_width:
  "StringWrap refExt (10 + k) (CHR 0x1B # ''[31mred'') 10 4 True
     = Returns
         (CHR 0x1B # ''[31mred'',
          Some \<lparr>WrappedLines =
                  [\<lparr>CurLineNum = 1, OrigLineNum = 1,
                    OrigByteOffset = \<lparr>Start = 0, End = 4\<rparr>,
                    OrigRuneOffset = \<lparr>Start = 0, End = 4\<rparr>, SegmentInOrig = 1,
                    LastSegmentInOrig = True, NotWithinLimit = False,
                    IsHardBreak = False, Width = 7, EndsWithSplitWord = False\<rparr>],
                WordSplitAllowed = False, TabSize = 4, Limit = 10\<rparr>,
          None)"
proof -
  have "StringWrap refExt 10 (CHR 0x1B # ''[31mred'') 10 4 True
     = Returns
         (CHR 0x1B # ''[31mred'',
          Some \<lparr>WrappedLines =
                  [\<lparr>CurLineNum = 1, OrigLineNum = 1,
                    OrigByteOffset = \<lparr>Start = 0, End = 4\<rparr>,
                    OrigRuneOffset = \<lparr>Start = 0, End = 4\<rparr>, SegmentInOrig = 1,
                    LastSegmentInOrig = True, NotWithinLimit = False,
                    IsHardBreak = False, Width = 7, EndsWithSplitWord = False\<rparr>],
                WordSplitAllowed = False, TabSize = 4, Limit = 10\<rparr>,
          None)"
    by code_simp
  then show ?thesis
    using stringWrap_mono [of refExt 10 "CHR 0x1B # ''[31mred''" 10 4 True False k]
    by (simp add: StringWrap_def)
qed




text \<open>
  Claim C8. With word splitting disabled, that is through the entry point \<^verbatim>\<open>StringWrap\<close>,
  no returned segment has its \<open>EndsWithSplitWord\<close> flag set.
\<close>

theorem no_split_flag_without_splitting:
  assumes "StringWrap E fuel str lim tab trim = Returns (out, Some s, err)"
  shows "\<forall>l \<in> set (WrappedLines s). \<not> EndsWithSplitWord l"
proof -
  from assms have "stringWrap E fuel str lim tab trim False = Returns (out, Some s, err)"
    by (simp add: StringWrap_def)
  from stringWrap_seqOk [OF this] show ?thesis
    by (auto simp: seqOk_def)
qed

theorem no_split_flag_without_splitting_witness:
  "\<exists>out s. StringWrap refExt 40 ''Supercalifragilistic'' 10 4 True = Returns (out, Some s, None)
     \<and> length (WrappedLines s) = 1
     \<and> NotWithinLimit (WrappedLines s ! 0)
     \<and> \<not> EndsWithSplitWord (WrappedLines s ! 0)"
proof -
  let ?s = "\<lparr>WrappedLines =
       [\<lparr>CurLineNum = 1, OrigLineNum = 1,
           OrigByteOffset = \<lparr>Start = 0, End = 20\<rparr>,
           OrigRuneOffset = \<lparr>Start = 0, End = 20\<rparr>, SegmentInOrig = 1,
           LastSegmentInOrig = True, NotWithinLimit = True,
           IsHardBreak = False, Width = 20, EndsWithSplitWord = False\<rparr>],
       WordSplitAllowed = False, TabSize = 4, Limit = 10\<rparr>"
  have h: "StringWrap refExt 40 ''Supercalifragilistic'' 10 4 True
             = Returns (''Supercalifragilistic'', Some ?s, None)"
    by code_simp
  from no_split_flag_without_splitting [OF h]
  have "\<not> EndsWithSplitWord (WrappedLines ?s ! 0)" by simp
  with h show ?thesis by (intro exI [of _ "''Supercalifragilistic''"] exI [of _ ?s]) simp
qed

subsection \<open>The input less one character\<close>













text \<open>
  The results need not differ where a word is pending: with splitting and limit 10, the
  word of the repository's test \<^verbatim>\<open>"Supercalifragilisticexpialidocious\vness"\<close> is cut in the
  same places with the vertical tab and without it.
\<close>

lemma vt_in_split_word_example:
  "StringWrapSplit refExt 60 (''Supercalifragilisticexpialidocious'' @ [CHR 0x0B] @ ''ness'') 10 4 True
     = StringWrapSplit refExt 60 ''Supercalifragilisticexpialidociousness'' 10 4 True
   \<and> fst (case StringWrapSplit refExt 60 ''Supercalifragilisticexpialidociousness'' 10 4 True of
             Returns x \<Rightarrow> x | _ \<Rightarrow> ([], None, None))
     = ''Supercali-'' @ [LF] @ ''fragilist-'' @ [LF] @ ''icexpiali-'' @ [LF] @ ''dociousne-''
       @ [LF] @ ''ss''"
  by code_simp


text \<open>
  Claim C10. For every successful call, the returned sequence echoes the configuration:
  its \<open>Limit\<close> and \<open>TabSize\<close> are the arguments \<^verbatim>\<open>limit\<close> and \<^verbatim>\<open>tabSize\<close>, and its
  \<open>WordSplitAllowed\<close> is false for \<^verbatim>\<open>StringWrap\<close> and true for \<^verbatim>\<open>StringWrapSplit\<close>.
\<close>

theorem sequence_echoes_configuration:
  "(StringWrap E fuel str lim tab trim = Returns (out, sq, None) \<longrightarrow>
      (\<exists>s. sq = Some s \<and> Limit s = lim \<and> TabSize s = tab \<and> \<not> WordSplitAllowed s))
   \<and> (StringWrapSplit E fuel str lim tab trim = Returns (out', sq', None) \<longrightarrow>
      (\<exists>s. sq' = Some s \<and> Limit s = lim \<and> TabSize s = tab \<and> WordSplitAllowed s))"
proof (intro conjI impI)
  assume "StringWrap E fuel str lim tab trim = Returns (out, sq, None)"
  then have r: "stringWrap E fuel str lim tab trim False = Returns (out, sq, None)"
    by (simp add: StringWrap_def)
  from stringWrap_success_Some [OF r] obtain s where s: "sq = Some s" by blast
  from stringWrap_seqOk [OF r [unfolded s]] s
  show "\<exists>s. sq = Some s \<and> Limit s = lim \<and> TabSize s = tab \<and> \<not> WordSplitAllowed s"
    by (auto simp: seqOk_def)
next
  assume "StringWrapSplit E fuel str lim tab trim = Returns (out', sq', None)"
  then have r: "stringWrap E fuel str lim tab trim True = Returns (out', sq', None)"
    by (simp add: StringWrapSplit_def)
  from stringWrap_success_Some [OF r] obtain s where s: "sq' = Some s" by blast
  from stringWrap_seqOk [OF r [unfolded s]] s
  show "\<exists>s. sq' = Some s \<and> Limit s = lim \<and> TabSize s = tab \<and> WordSplitAllowed s"
    by (auto simp: seqOk_def)
qed

theorem sequence_echoes_configuration_witness:
  "\<exists>out sq out' sq'.
     StringWrap refExt 40 ''Hello.'' 5 4 True = Returns (out, sq, None)
     \<and> StringWrapSplit refExt 40 ''Hello.'' 5 4 True = Returns (out', sq', None)
     \<and> map_option Limit sq = Some 5 \<and> map_option TabSize sq = Some 4
     \<and> map_option WordSplitAllowed sq = Some False
     \<and> map_option Limit sq' = Some 5 \<and> map_option TabSize sq' = Some 4
     \<and> map_option WordSplitAllowed sq' = Some True"
proof -
  let ?s = "\<lparr>WrappedLines =
       [\<lparr>CurLineNum = 1, OrigLineNum = 1,
           OrigByteOffset = \<lparr>Start = 0, End = 6\<rparr>,
           OrigRuneOffset = \<lparr>Start = 0, End = 6\<rparr>, SegmentInOrig = 1,
           LastSegmentInOrig = True, NotWithinLimit = True,
           IsHardBreak = False, Width = 6, EndsWithSplitWord = False\<rparr>],
       WordSplitAllowed = False, TabSize = 4, Limit = 5\<rparr>"
  let ?s' = "\<lparr>WrappedLines =
       [\<lparr>CurLineNum = 1, OrigLineNum = 1,
           OrigByteOffset = \<lparr>Start = 0, End = 4\<rparr>,
           OrigRuneOffset = \<lparr>Start = 0, End = 4\<rparr>, SegmentInOrig = 1,
           LastSegmentInOrig = False, NotWithinLimit = False,
           IsHardBreak = False, Width = 5, EndsWithSplitWord = True\<rparr>,
        \<lparr>CurLineNum = 2, OrigLineNum = 1,
           OrigByteOffset = \<lparr>Start = 4, End = 6\<rparr>,
           OrigRuneOffset = \<lparr>Start = 4, End = 6\<rparr>, SegmentInOrig = 2,
           LastSegmentInOrig = True, NotWithinLimit = False,
           IsHardBreak = False, Width = 2, EndsWithSplitWord = False\<rparr>],
       WordSplitAllowed = True, TabSize = 4, Limit = 5\<rparr>"
  have h: "StringWrap refExt 40 ''Hello.'' 5 4 True = Returns (''Hello.'', Some ?s, None)"
    by code_simp
  have h': "StringWrapSplit refExt 40 ''Hello.'' 5 4 True
              = Returns (''Hell-'' @ [LF] @ ''o.'', Some ?s', None)"
    by code_simp
  from sequence_echoes_configuration
         [of refExt 40 "''Hello.''" 5 4 True "''Hello.''" "Some ?s"
             "''Hell-'' @ [LF] @ ''o.''" "Some ?s'"] h h'
  have "Limit ?s = 5 \<and> TabSize ?s = 4 \<and> \<not> WordSplitAllowed ?s
        \<and> Limit ?s' = 5 \<and> TabSize ?s' = 4 \<and> WordSplitAllowed ?s'"
    by simp
  with h h' show ?thesis
    by (intro exI [of _ "''Hello.''"] exI [of _ "Some ?s"]
              exI [of _ "''Hell-'' @ [LF] @ ''o.''"] exI [of _ "Some ?s'"]) simp
qed

end
